theory Spec2Isabelle
  imports Main "HOL-Library.Sublist"
begin

section \<open>Python string primitives used by markdown2html.py\<close>

text \<open>
  A Python \<open>str\<close> is modelled as a \<open>string\<close>: a list of characters, each \<open>char\<close> read as
  one code point below 256. \<open>isspace\<close> is \<open>str.isspace\<close> on that range: the characters
  that \<open>str.strip()\<close> without argument removes.
\<close>

definition isspace :: "char \<Rightarrow> bool" where
  "isspace c = (c \<in> {CHR 0x09, CHR 0x0A, CHR 0x0B, CHR 0x0C, CHR 0x0D, CHR 0x1C, CHR 0x1D,
                      CHR 0x1E, CHR 0x1F, CHR 0x20, CHR 0x85, CHR 0xA0})"

text \<open>\<open>s.strip()\<close>: whitespace removed at both ends.\<close>

definition strip :: "string \<Rightarrow> string" where
  "strip s = rev (dropWhile isspace (rev (dropWhile isspace s)))"

text \<open>\<open>s.startswith(p)\<close>, and \<open>s.startswith((p1, p2, ...))\<close> with a tuple of prefixes.\<close>

definition startswith :: "string \<Rightarrow> string \<Rightarrow> bool" where
  "startswith s p = (take (length p) s = p)"

definition startswith_any :: "string \<Rightarrow> string list \<Rightarrow> bool" where
  "startswith_any s ps = list_ex (startswith s) ps"

text \<open>\<open>str(n)\<close> of a non-negative integer, as the f-string \<open>{i}\<close> formats it.\<close>

fun str_nat :: "nat \<Rightarrow> string" where
  "str_nat n = (if n < 10 then [''0123456789'' ! n]
                else str_nat (n div 10) @ [''0123456789'' ! (n mod 10)])"

declare str_nat.simps [simp del]

text \<open>
  \<open>s.replace(old, new)\<close>: every non-overlapping occurrence of \<open>old\<close>, from the left; with an
  empty \<open>old\<close> Python puts \<open>new\<close> before every character and at the end.
\<close>

function replace :: "string \<Rightarrow> string \<Rightarrow> string \<Rightarrow> string" where
  "replace s old new =
     (if old = [] then new @ concat (map (\<lambda>c. c # new) s)
      else if s = [] then []
      else if take (length old) s = old then new @ replace (drop (length old) s) old new
      else hd s # replace (tl s) old new)"
  by pat_completeness auto
termination
  by (relation "measure (\<lambda>(s, old, new). length s)") (auto simp: neq_Nil_conv)

declare replace.simps [simp del]

section \<open>Stage 1: convert_markdown_heading_to_html\<close>

text \<open>
  The inner loop \<open>for i in range(6, 0, -1)\<close> with its \<open>break\<close>: the candidates are tried in
  the order given, the first whose prefix \<open>"#" * i + " "\<close> matches rewrites the line and ends
  the loop; with no candidate left the line is as it was.
\<close>

fun heading_try :: "nat list \<Rightarrow> string \<Rightarrow> string" where
  "heading_try [] line = line"
| "heading_try (i # rest) line =
     (if startswith line (replicate i CHR ''#'' @ '' '')
      then ''<h'' @ str_nat i @ ''>'' @ strip (drop (i + 1) line) @ ''</h'' @ str_nat i @ ''>\<newline>''
      else heading_try rest line)"

definition range_6_0 :: "nat list" where
  "range_6_0 = [6, 5, 4, 3, 2, 1]"

text \<open>The outer loop appends one line per input line to \<open>converted_lines\<close>.\<close>

fun heading_loop :: "string list \<Rightarrow> string list \<Rightarrow> string list" where
  "heading_loop converted_lines [] = converted_lines"
| "heading_loop converted_lines (line # lines) =
     heading_loop (converted_lines @ [heading_try range_6_0 line]) lines"

definition convert_markdown_heading_to_html :: "string list \<Rightarrow> string list" where
  "convert_markdown_heading_to_html lines = heading_loop [] lines"

text \<open>The number of \<open>#\<close> characters a line starts with.\<close>

definition leading_hashes :: "string \<Rightarrow> nat" where
  "leading_hashes line = length (takeWhile (\<lambda>c. c = CHR ''#'') line)"

section \<open>Stage 2: convert_markdown_ul_list_to_html\<close>

text \<open>
  The loop over \<open>lines\<close> with its two variables \<open>in_list\<close> and \<open>html_lines\<close>; the
  equation for the empty list is the code after the loop (the final \<open>if in_list\<close> and the
  \<open>return\<close>).
\<close>

fun ul_loop :: "bool \<Rightarrow> string list \<Rightarrow> string list \<Rightarrow> string list" where
  "ul_loop in_list html_lines [] =
     (if in_list then html_lines @ [''</ul>\<newline>''] else html_lines)"
| "ul_loop in_list html_lines (line # lines) =
     (if startswith line ''- '' then
        ul_loop True
          ((if \<not> in_list then html_lines @ [''<ul>\<newline>''] else html_lines)
             @ [''   <li>'' @ strip (drop 2 line) @ ''</li>\<newline>''])
          lines
      else
        ul_loop False
          ((if in_list then html_lines @ [''</ul>\<newline>''] else html_lines) @ [line])
          lines)"

definition convert_markdown_ul_list_to_html :: "string list \<Rightarrow> string list" where
  "convert_markdown_ul_list_to_html lines = ul_loop False [] lines"

section \<open>Stage 3: convert_markdown_ol_list_to_html\<close>

fun ol_loop :: "bool \<Rightarrow> string list \<Rightarrow> string list \<Rightarrow> string list" where
  "ol_loop in_list html_lines [] =
     (if in_list then html_lines @ [''</ol>\<newline>''] else html_lines)"
| "ol_loop in_list html_lines (line # lines) =
     (if startswith line ''* '' then
        ol_loop True
          ((if \<not> in_list then html_lines @ [''<ol>\<newline>''] else html_lines)
             @ [''   <li>'' @ strip (drop 2 line) @ ''</li>\<newline>''])
          lines
      else
        ol_loop False
          ((if in_list then html_lines @ [''</ol>\<newline>''] else html_lines) @ [line])
          lines)"

definition convert_markdown_ol_list_to_html :: "string list \<Rightarrow> string list" where
  "convert_markdown_ol_list_to_html lines = ol_loop False [] lines"

section \<open>Stage 4: convert_markdown_paragraph_to_html\<close>

text \<open>
  The only operation of the four stages that can raise is the assignment to
  \<open>html_lines[-1]\<close>, an \<open>IndexError\<close> on an empty list; reading and writing files in
  \<open>main\<close> can raise \<open>OSError\<close>.
\<close>

datatype error = IndexError | OSError

text \<open>The test of line 116 on a line: its stripped form is not empty and starts with none
  of \<open>#\<close>, \<open>-\<close>, \<open>*\<close>.\<close>

definition paragraph_line :: "string \<Rightarrow> bool" where
  "paragraph_line line =
     (strip line \<noteq> [] \<and> \<not> startswith_any (strip line) [''#'', ''-'', ''*''])"

text \<open>\<open>html_lines[-1] = html_lines[-1].replace("<br/>\n", "\n")\<close>.\<close>

definition strip_last_break :: "string list \<Rightarrow> error + string list" where
  "strip_last_break html_lines =
     (if html_lines = [] then Inl IndexError
      else Inr (html_lines[length html_lines - 1 :=
                  replace (last html_lines) ''<br/>\<newline>'' ''\<newline>'']))"

fun par_loop :: "bool \<Rightarrow> string list \<Rightarrow> string list \<Rightarrow> error + string list" where
  "par_loop in_paragraph html_lines [] =
     (if in_paragraph then
        (case strip_last_break html_lines of
           Inl e \<Rightarrow> Inl e
         | Inr html_lines' \<Rightarrow> Inr (html_lines' @ [''</p>\<newline>'']))
      else Inr html_lines)"
| "par_loop in_paragraph html_lines (line # lines) =
     (if paragraph_line line then
        par_loop True
          ((if \<not> in_paragraph then html_lines @ [''<p>\<newline>''] else html_lines)
             @ [''    '' @ strip line @ ''<br/>\<newline>''])
          lines
      else if in_paragraph then
        (case strip_last_break html_lines of
           Inl e \<Rightarrow> Inl e
         | Inr html_lines' \<Rightarrow> par_loop False (html_lines' @ [''</p>\<newline>''] @ [line]) lines)
      else par_loop False (html_lines @ [line]) lines)"

definition convert_markdown_paragraph_to_html :: "string list \<Rightarrow> error + string list" where
  "convert_markdown_paragraph_to_html lines = par_loop False [] lines"

section \<open>The four stages in sequence, as main applies them\<close>

definition pipeline :: "string list \<Rightarrow> error + string list" where
  "pipeline lines =
     convert_markdown_paragraph_to_html
       (convert_markdown_ol_list_to_html
          (convert_markdown_ul_list_to_html
             (convert_markdown_heading_to_html lines)))"

section \<open>main: arguments, files, exit status\<close>

text \<open>
  The part of the world \<open>main\<close> touches: the file system (a path names a regular file with
  its text, a directory, or nothing), which files can be opened for reading and which paths
  for writing, and what has been printed on the error stream.
\<close>

datatype node = Regular string | Directory

record world =
  fs :: "string \<rightharpoonup> node"
  readable :: "string \<Rightarrow> bool"
  writable :: "string \<Rightarrow> bool"
  stderr :: string

text \<open>How the process ends: \<open>exit(n)\<close>, or an exception nobody catches.\<close>

datatype outcome = Exit nat | Uncaught error

text \<open>
  \<open>md.readlines()\<close> of a file opened in text mode: \<open>\r\n\<close> and a lone \<open>\r\<close> are read as
  \<open>\n\<close>, and the text is cut after every \<open>\n\<close>, each line keeping its terminator.
\<close>

fun universal_newlines :: "bool \<Rightarrow> string \<Rightarrow> string" where
  "universal_newlines after_cr [] = []"
| "universal_newlines after_cr (c # cs) =
     (if c = CHR 0x0D then CHR 0x0A # universal_newlines True cs
      else if c = CHR 0x0A \<and> after_cr then universal_newlines False cs
      else c # universal_newlines False cs)"

fun split_lines :: "string \<Rightarrow> string \<Rightarrow> string list" where
  "split_lines cur [] = (if cur = [] then [] else [cur])"
| "split_lines cur (c # cs) =
     (if c = CHR 0x0A then (cur @ [c]) # split_lines [] cs else split_lines (cur @ [c]) cs)"

definition readlines :: "string \<Rightarrow> string list" where
  "readlines text = split_lines [] (universal_newlines False text)"

definition read_file :: "world \<Rightarrow> string \<Rightarrow> error + string list" where
  "read_file w path =
     (case fs w path of
        Some (Regular text) \<Rightarrow> if readable w path then Inr (readlines text) else Inl OSError
      | _ \<Rightarrow> Inl OSError)"

text \<open>\<open>open(html_file, "w")\<close> and \<open>html.writelines(converted_lines)\<close>.\<close>

definition write_file :: "world \<Rightarrow> string \<Rightarrow> string list \<Rightarrow> error + world" where
  "write_file w path lines =
     (if writable w path \<and> fs w path \<noteq> Some Directory
      then Inr (w\<lparr>fs := (fs w)(path \<mapsto> Regular (concat lines))\<rparr>)
      else Inl OSError)"

definition print_stderr :: "string \<Rightarrow> world \<Rightarrow> world" where
  "print_stderr msg w = w\<lparr>stderr := stderr w @ msg @ ''\<newline>''\<rparr>"

definition main :: "string list \<Rightarrow> world \<Rightarrow> outcome \<times> world" where
  "main argv w =
     (if length argv < 3 then
        (Exit 1, print_stderr ''Usage: ./markdown2html.py README.md README.html'' w)
      else if fs w (argv ! 1) = None then
        (Exit 1, print_stderr (''Missing '' @ argv ! 1) w)
      else
        (case read_file w (argv ! 1) of
           Inl e \<Rightarrow> (Uncaught e, w)
         | Inr lines \<Rightarrow>
             (case pipeline lines of
                Inl e \<Rightarrow> (Uncaught e, w)
              | Inr converted_lines \<Rightarrow>
                  (case write_file w (argv ! 2) converted_lines of
                     Inl e \<Rightarrow> (Uncaught e, w)
                   | Inr w' \<Rightarrow> (Exit 0, w')))))"

section \<open>Descriptions used to state the properties\<close>

text \<open>
  The list grouper as section 4.2 of the specification words it, with the marker and the
  two container lines as parameters: a flag "inside a block", an opening line before the
  first item of a block, a closing line before the first line that is no item and at the
  end of input.
\<close>

fun list_grouper_spec ::
  "string \<Rightarrow> string \<Rightarrow> string \<Rightarrow> bool \<Rightarrow> string list \<Rightarrow> string list" where
  "list_grouper_spec marker opening closing inside [] = (if inside then [closing] else [])"
| "list_grouper_spec marker opening closing inside (l # ls) =
     (if startswith l marker
      then (if inside then [] else [opening])
             @ [''   <li>'' @ strip (drop (length marker) l) @ ''</li>\<newline>'']
             @ list_grouper_spec marker opening closing True ls
      else (if inside then [closing] else [])
             @ [l]
             @ list_grouper_spec marker opening closing False ls)"

text \<open>
  The lines a list grouper appends, each labelled by the statement that appends it: the
  opening line (lines 49, 84), an item (lines 52, 86), the closing line (lines 56, 62, 89,
  94) or the input line itself (lines 59, 91).
\<close>

datatype emission = Opening | ListItem string | Closing | Unchanged string

fun grouper_emissions :: "string \<Rightarrow> bool \<Rightarrow> string list \<Rightarrow> emission list" where
  "grouper_emissions marker inside [] = (if inside then [Closing] else [])"
| "grouper_emissions marker inside (l # ls) =
     (if startswith l marker
      then (if inside then [] else [Opening])
             @ [ListItem (strip (drop (length marker) l))]
             @ grouper_emissions marker True ls
      else (if inside then [Closing] else [])
             @ [Unchanged l]
             @ grouper_emissions marker False ls)"

fun render_emission :: "string \<Rightarrow> string \<Rightarrow> emission \<Rightarrow> string" where
  "render_emission opening closing Opening = opening"
| "render_emission opening closing (ListItem t) = ''   <li>'' @ t @ ''</li>\<newline>''"
| "render_emission opening closing Closing = closing"
| "render_emission opening closing (Unchanged l) = l"

text \<open>
  Balanced containers: an opening line only outside a block, items and the closing line
  only inside one, unchanged lines only outside, and no block open at the end.
\<close>

fun balanced_from :: "bool \<Rightarrow> emission list \<Rightarrow> bool" where
  "balanced_from inside [] = (\<not> inside)"
| "balanced_from inside (Opening # es) = (\<not> inside \<and> balanced_from True es)"
| "balanced_from inside (ListItem t # es) = (inside \<and> balanced_from True es)"
| "balanced_from inside (Closing # es) = (inside \<and> balanced_from False es)"
| "balanced_from inside (Unchanged l # es) = (\<not> inside \<and> balanced_from False es)"

fun unchanged_lines :: "emission list \<Rightarrow> string list" where
  "unchanged_lines [] = []"
| "unchanged_lines (Unchanged l # es) = l # unchanged_lines es"
| "unchanged_lines (e # es) = unchanged_lines es"

fun item_texts :: "emission list \<Rightarrow> string list" where
  "item_texts [] = []"
| "item_texts (ListItem t # es) = t # item_texts es"
| "item_texts (e # es) = item_texts es"

text \<open>
  The content line of line 122, the closing rewrite of lines 126 and 135, and the output
  of the paragraph grouper read from left to right: the last content line appended, if a
  paragraph is open, is held back until the next input line tells whether it stays as it
  is or is the last of its paragraph.
\<close>

definition content_line :: "string \<Rightarrow> string" where
  "content_line line = ''    '' @ strip line @ ''<br/>\<newline>''"

definition close_break :: "string \<Rightarrow> string" where
  "close_break c = replace c ''<br/>\<newline>'' ''\<newline>''"

fun par_emit :: "string option \<Rightarrow> string list \<Rightarrow> string list" where
  "par_emit None [] = []"
| "par_emit (Some c) [] = [close_break c, ''</p>\<newline>'']"
| "par_emit None (l # ls) =
     (if paragraph_line l then ''<p>\<newline>'' # par_emit (Some (content_line l)) ls
      else l # par_emit None ls)"
| "par_emit (Some c) (l # ls) =
     (if paragraph_line l then c # par_emit (Some (content_line l)) ls
      else close_break c # ''</p>\<newline>'' # l # par_emit None ls)"

text \<open>A line matches the heading rewriter when one of the six prefixes of line 24 starts it.\<close>

definition heading_prefix :: "string \<Rightarrow> bool" where
  "heading_prefix line =
     list_ex (\<lambda>i. startswith line (replicate i CHR ''#'' @ '' '')) range_6_0"

text \<open>A line in the sense of the data model: no newline before its last character.\<close>

definition one_line :: "string \<Rightarrow> bool" where
  "one_line l = (CHR 0x0A \<notin> set (butlast l))"

section \<open>Properties of the string primitives\<close>

lemma startswith_Nil [simp]: "startswith s []"
  by (simp add: startswith_def)

lemma startswith_Cons:
  "startswith s (c # p) = (case s of [] \<Rightarrow> False | d # t \<Rightarrow> d = c \<and> startswith t p)"
  by (cases s) (auto simp: startswith_def)

lemma startswith_append: "startswith (p @ t) p"
  by (simp add: startswith_def)

lemma startswith_prefix: "startswith s p = prefix p s"
  by (metis append_eq_conv_conj prefix_def startswith_def)

lemma leading_hashes_Nil [simp]: "leading_hashes [] = 0"
  by (simp add: leading_hashes_def)

lemma leading_hashes_Cons [simp]:
  "leading_hashes (c # cs) = (if c = CHR ''#'' then Suc (leading_hashes cs) else 0)"
  by (simp add: leading_hashes_def)

lemma startswith_hashes_space:
  "startswith line (replicate i CHR ''#'' @ '' '') =
     (leading_hashes line = i \<and> i < length line \<and> line ! i = CHR '' '')"
proof (induction i arbitrary: line)
  case 0
  then show ?case
    by (cases line) (auto simp: startswith_Cons)
next
  case (Suc i)
  then show ?case
    by (cases line) (auto simp: startswith_Cons)
qed

section \<open>Properties of the heading rewriter\<close>

lemma heading_loop_map:
  "heading_loop acc lines = acc @ map (heading_try range_6_0) lines"
  by (induction lines arbitrary: acc) simp_all

lemma set_range_6_0: "(i \<in> set range_6_0) = (1 \<le> i \<and> i \<le> 6)"
  unfolding range_6_0_def by (simp; arith)

lemma heading_try_miss:
  "\<forall>i \<in> set cands. \<not> startswith line (replicate i CHR ''#'' @ '' '') \<Longrightarrow>
   heading_try cands line = line"
  by (induction cands) simp_all

lemma heading_try_hit:
  "i \<in> set cands \<Longrightarrow> startswith line (replicate i CHR ''#'' @ '' '') \<Longrightarrow>
   heading_try cands line =
     ''<h'' @ str_nat i @ ''>'' @ strip (drop (i + 1) line) @ ''</h'' @ str_nat i @ ''>\<newline>''"
proof (induction cands)
  case Nil
  then show ?case by simp
next
  case (Cons j cands)
  show ?case
  proof (cases "startswith line (replicate j CHR ''#'' @ '' '')")
    case True
    with Cons.prems(2) have "j = i"
      by (simp add: startswith_hashes_space)
    with True show ?thesis by simp
  next
    case False
    with Cons.prems have "i \<in> set cands" by auto
    with False Cons show ?thesis by simp
  qed
qed

lemma heading_try_range:
  "heading_try range_6_0 line =
     (let i = leading_hashes line in
      if 1 \<le> i \<and> i \<le> 6 \<and> i < length line \<and> line ! i = CHR '' ''
      then ''<h'' @ str_nat i @ ''>'' @ strip (drop (i + 1) line) @ ''</h'' @ str_nat i @ ''>\<newline>''
      else line)"
proof (cases "1 \<le> leading_hashes line \<and> leading_hashes line \<le> 6 \<and>
              leading_hashes line < length line \<and> line ! leading_hashes line = CHR '' ''")
  case True
  then have "leading_hashes line \<in> set range_6_0"
    and "startswith line (replicate (leading_hashes line) CHR ''#'' @ '' '')"
    by (simp_all add: set_range_6_0 startswith_hashes_space)
  then have "heading_try range_6_0 line =
      ''<h'' @ str_nat (leading_hashes line) @ ''>'' @ strip (drop (leading_hashes line + 1) line)
        @ ''</h'' @ str_nat (leading_hashes line) @ ''>\<newline>''"
    by (rule heading_try_hit)
  with True show ?thesis
    unfolding Let_def by simp
next
  case False
  then have "\<forall>i \<in> set range_6_0. \<not> startswith line (replicate i CHR ''#'' @ '' '')"
    by (auto simp: set_range_6_0 startswith_hashes_space)
  then have "heading_try range_6_0 line = line"
    by (rule heading_try_miss)
  with False show ?thesis
    unfolding Let_def by auto
qed

lemma strip_Title: "strip ''Title\<newline>'' = ''Title''"
  by (simp add: strip_def isspace_def)

text \<open>
  C1. The heading rewriter replaces a line by \<open><hi>\<close>, the stripped remainder after the
  marker and the space, \<open></hi>\<close> and a newline exactly when the line starts with exactly
  \<open>i\<close> characters \<open>#\<close>, \<open>1 \<le> i \<le> 6\<close>, followed at once by a space; every other line is
  returned unchanged. \<open>"### Title\n"\<close> becomes \<open>"<h3>Title</h3>\n"\<close>, and a line of seven
  markers is left as it is.
\<close>

theorem heading_rewriter_exact:
  "convert_markdown_heading_to_html lines =
     map (\<lambda>line. let i = leading_hashes line in
            if 1 \<le> i \<and> i \<le> 6 \<and> i < length line \<and> line ! i = CHR '' ''
            then ''<h'' @ str_nat i @ ''>'' @ strip (drop (i + 1) line) @ ''</h'' @ str_nat i @ ''>\<newline>''
            else line) lines
   \<and> convert_markdown_heading_to_html [''### Title\<newline>''] = [''<h3>Title</h3>\<newline>'']
   \<and> convert_markdown_heading_to_html [''####### x\<newline>''] = [''####### x\<newline>'']"
proof (intro conjI)
  show "convert_markdown_heading_to_html lines =
     map (\<lambda>line. let i = leading_hashes line in
            if 1 \<le> i \<and> i \<le> 6 \<and> i < length line \<and> line ! i = CHR '' ''
            then ''<h'' @ str_nat i @ ''>'' @ strip (drop (i + 1) line) @ ''</h'' @ str_nat i @ ''>\<newline>''
            else line) lines"
    unfolding convert_markdown_heading_to_html_def heading_loop_map heading_try_range
    by simp
  show "convert_markdown_heading_to_html [''### Title\<newline>''] = [''<h3>Title</h3>\<newline>'']"
    unfolding convert_markdown_heading_to_html_def heading_loop_map heading_try_range
    by (simp add: strip_Title str_nat.simps)
  show "convert_markdown_heading_to_html [''####### x\<newline>''] = [''####### x\<newline>'']"
    unfolding convert_markdown_heading_to_html_def heading_loop_map heading_try_range
    by simp
qed

section \<open>Properties of the list groupers\<close>

lemma ul_loop_spec:
  "ul_loop b acc ls = acc @ list_grouper_spec ''- '' ''<ul>\<newline>'' ''</ul>\<newline>'' b ls"
  by (induction ls arbitrary: b acc) (simp_all add: numeral_2_eq_2)

lemma ol_loop_spec:
  "ol_loop b acc ls = acc @ list_grouper_spec ''* '' ''<ol>\<newline>'' ''</ol>\<newline>'' b ls"
  by (induction ls arbitrary: b acc) (simp_all add: numeral_2_eq_2)

lemma grouper_no_item:
  "\<forall>l \<in> set ls. \<not> startswith l m \<Longrightarrow>
   list_grouper_spec m opn cls b ls = (if b \<and> ls \<noteq> [] then cls # ls else if b then [cls] else ls)"
  by (induction ls arbitrary: b) auto

lemma grouper_items:
  "\<forall>l \<in> set run. startswith l m \<Longrightarrow>
   list_grouper_spec m opn cls True (run @ post) =
     map (\<lambda>l. ''   <li>'' @ strip (drop (length m) l) @ ''</li>\<newline>'') run
       @ list_grouper_spec m opn cls True post"
  by (induction run) simp_all

lemma grouper_close:
  "post = [] \<or> \<not> startswith (hd post) m \<Longrightarrow>
   list_grouper_spec m opn cls True post = cls # list_grouper_spec m opn cls False post"
  by (cases post) auto

lemma grouper_run:
  assumes "run \<noteq> []" "\<forall>l \<in> set run. startswith l m"
    and "post = [] \<or> \<not> startswith (hd post) m"
  shows "list_grouper_spec m opn cls False (run @ post) =
     opn # map (\<lambda>l. ''   <li>'' @ strip (drop (length m) l) @ ''</li>\<newline>'') run
       @ cls # list_grouper_spec m opn cls False post"
proof -
  from assms(1) obtain l rest where run: "run = l # rest" by (cases run) auto
  with assms(2) have l: "startswith l m" and rest: "\<forall>l \<in> set rest. startswith l m" by auto
  show ?thesis
    using l by (simp add: run grouper_items [OF rest] grouper_close [OF assms(3)])
qed

lemma grouper_prefix:
  "pre \<noteq> [] \<Longrightarrow> \<not> startswith (last pre) m \<Longrightarrow>
   list_grouper_spec m opn cls b (pre @ rest) =
     list_grouper_spec m opn cls b pre @ list_grouper_spec m opn cls False rest"
proof (induction pre arbitrary: b)
  case Nil
  then show ?case by simp
next
  case (Cons l pre)
  show ?case
  proof (cases "pre = []")
    case True
    with Cons.prems show ?thesis by simp
  next
    case False
    with Cons show ?thesis by simp
  qed
qed

lemma grouper_prefix':
  "pre = [] \<or> \<not> startswith (last pre) m \<Longrightarrow>
   list_grouper_spec m opn cls False (pre @ rest) =
     list_grouper_spec m opn cls False pre @ list_grouper_spec m opn cls False rest"
  by (cases "pre = []") (auto simp: grouper_prefix)

lemma grouper_subseq:
  "subseq (filter (\<lambda>l. \<not> startswith l m) ls) (list_grouper_spec m opn cls b ls)"
  by (induction ls arbitrary: b) (auto intro: subseq_Cons' list_emb_append2)

lemma grouper_emissions_render:
  "map (render_emission opn cls) (grouper_emissions m b ls) = list_grouper_spec m opn cls b ls"
  by (induction ls arbitrary: b) simp_all

lemma grouper_emissions_balanced: "balanced_from b (grouper_emissions m b ls)"
  by (induction ls arbitrary: b) simp_all

lemma balanced_count:
  "balanced_from b es \<Longrightarrow>
   count_list es Opening + (if b then 1 else 0) = count_list es Closing"
  by (induction b es rule: balanced_from.induct) (auto split: if_splits)

lemma grouper_emissions_unchanged:
  "unchanged_lines (grouper_emissions m b ls) = filter (\<lambda>l. \<not> startswith l m) ls"
  by (induction ls arbitrary: b) simp_all

lemma grouper_emissions_items:
  "item_texts (grouper_emissions m b ls) =
     map (\<lambda>l. strip (drop (length m) l)) (filter (\<lambda>l. startswith l m) ls)"
  by (induction ls arbitrary: b) simp_all

lemma grouper_open_at_end:
  "xs \<noteq> [] \<Longrightarrow> startswith (last xs) m \<Longrightarrow>
   list_grouper_spec m opn cls b (xs @ ys) =
     butlast (list_grouper_spec m opn cls b xs) @ list_grouper_spec m opn cls True ys
   \<and> last (list_grouper_spec m opn cls b xs) = cls"
proof (induction xs arbitrary: b)
  case Nil
  then show ?case by simp
next
  case (Cons l xs)
  show ?case
  proof (cases "xs = []")
    case True
    with Cons.prems show ?thesis by (simp add: butlast_append)
  next
    case False
    with Cons.prems have "startswith (last xs) m" by simp
    from Cons.IH [OF False this] have
      ih: "\<And>b. list_grouper_spec m opn cls b (xs @ ys) =
         butlast (list_grouper_spec m opn cls b xs) @ list_grouper_spec m opn cls True ys"
         "\<And>b. last (list_grouper_spec m opn cls b xs) = cls"
      by auto
    have ne: "\<And>b. list_grouper_spec m opn cls b xs \<noteq> []"
      using False by (cases xs) auto
    show ?thesis
      using False by (simp add: ih ne butlast_append)
  qed
qed

lemma grouper_trailing_blank:
  assumes "xs \<noteq> []" "startswith (last xs) m" "\<not> startswith ''\<newline>'' m"
  shows "list_grouper_spec m opn cls False (xs @ replicate n ''\<newline>'') =
         list_grouper_spec m opn cls False xs @ replicate n ''\<newline>''"
proof -
  have ne: "list_grouper_spec m opn cls False xs \<noteq> []"
    using assms(1) by (cases xs) auto
  have "list_grouper_spec m opn cls True (replicate n ''\<newline>'') = cls # replicate n ''\<newline>''"
    using assms(3) by (subst grouper_no_item) auto
  with grouper_open_at_end [OF assms(1,2), of opn cls False "replicate n ''\<newline>''"] ne
  show ?thesis
    by (metis append_butlast_last_id append.assoc append_Cons append_Nil)
qed

lemma strip_a: "strip ''a\<newline>'' = ''a''" and strip_b: "strip ''b\<newline>'' = ''b''"
  by (simp_all add: strip_def isspace_def)

text \<open>
  C2. The unordered-list grouper wraps each maximal run of lines starting with \<open>"- "\<close> in
  one pair \<open>"<ul>\n"\<close> ... \<open>"</ul>\n"\<close> and turns each line of the run into
  \<open>"   <li>"\<close>, the stripped text after the marker, \<open>"</li>\n"\<close>; the lines before and after
  the run are grouped on their own.
\<close>

theorem ul_grouper_wraps_runs:
  "(run \<noteq> [] \<and> (\<forall>l \<in> set run. startswith l ''- '')
      \<and> (pre = [] \<or> \<not> startswith (last pre) ''- '')
      \<and> (post = [] \<or> \<not> startswith (hd post) ''- '') \<longrightarrow>
    convert_markdown_ul_list_to_html (pre @ run @ post) =
      convert_markdown_ul_list_to_html pre
        @ [''<ul>\<newline>'']
        @ map (\<lambda>l. ''   <li>'' @ strip (drop 2 l) @ ''</li>\<newline>'') run
        @ [''</ul>\<newline>'']
        @ convert_markdown_ul_list_to_html post)
   \<and> convert_markdown_ul_list_to_html [''- a\<newline>'', ''- b\<newline>'', ''x\<newline>''] =
       [''<ul>\<newline>'', ''   <li>a</li>\<newline>'', ''   <li>b</li>\<newline>'', ''</ul>\<newline>'', ''x\<newline>'']"
proof (intro conjI impI)
  assume h: "run \<noteq> [] \<and> (\<forall>l \<in> set run. startswith l ''- '')
      \<and> (pre = [] \<or> \<not> startswith (last pre) ''- '')
      \<and> (post = [] \<or> \<not> startswith (hd post) ''- '')"
  then have "list_grouper_spec ''- '' ''<ul>\<newline>'' ''</ul>\<newline>'' False (run @ post) =
      ''<ul>\<newline>'' # map (\<lambda>l. ''   <li>'' @ strip (drop (length ''- '') l) @ ''</li>\<newline>'') run
        @ ''</ul>\<newline>'' # list_grouper_spec ''- '' ''<ul>\<newline>'' ''</ul>\<newline>'' False post"
    by (intro grouper_run) auto
  moreover from h have "list_grouper_spec ''- '' ''<ul>\<newline>'' ''</ul>\<newline>'' False (pre @ run @ post) =
      list_grouper_spec ''- '' ''<ul>\<newline>'' ''</ul>\<newline>'' False pre
        @ list_grouper_spec ''- '' ''<ul>\<newline>'' ''</ul>\<newline>'' False (run @ post)"
    by (intro grouper_prefix') auto
  ultimately show "convert_markdown_ul_list_to_html (pre @ run @ post) =
      convert_markdown_ul_list_to_html pre
        @ [''<ul>\<newline>'']
        @ map (\<lambda>l. ''   <li>'' @ strip (drop 2 l) @ ''</li>\<newline>'') run
        @ [''</ul>\<newline>'']
        @ convert_markdown_ul_list_to_html post"
    by (simp add: convert_markdown_ul_list_to_html_def ul_loop_spec numeral_2_eq_2)
next
  show "convert_markdown_ul_list_to_html [''- a\<newline>'', ''- b\<newline>'', ''x\<newline>''] =
       [''<ul>\<newline>'', ''   <li>a</li>\<newline>'', ''   <li>b</li>\<newline>'', ''</ul>\<newline>'', ''x\<newline>'']"
    by (simp add: convert_markdown_ul_list_to_html_def startswith_def strip_a strip_b)
qed

theorem ul_grouper_wraps_runs_witness:
  "convert_markdown_ul_list_to_html ([''# t\<newline>''] @ [''- a\<newline>'', ''- b\<newline>''] @ [''x\<newline>'', ''- a\<newline>'']) =
     [''# t\<newline>'', ''<ul>\<newline>'', ''   <li>a</li>\<newline>'', ''   <li>b</li>\<newline>'', ''</ul>\<newline>'',
      ''x\<newline>'', ''<ul>\<newline>'', ''   <li>a</li>\<newline>'', ''</ul>\<newline>'']"
proof -
  have pre: "convert_markdown_ul_list_to_html [''# t\<newline>''] = [''# t\<newline>'']"
    by (simp add: convert_markdown_ul_list_to_html_def startswith_def)
  have post: "convert_markdown_ul_list_to_html [''x\<newline>'', ''- a\<newline>''] =
      [''x\<newline>'', ''<ul>\<newline>'', ''   <li>a</li>\<newline>'', ''</ul>\<newline>'']"
    by (simp add: convert_markdown_ul_list_to_html_def startswith_def strip_a)
  show ?thesis
    using ul_grouper_wraps_runs [of "[''- a\<newline>'', ''- b\<newline>'']" "[''# t\<newline>'']" "[''x\<newline>'', ''- a\<newline>'']"]
    by (simp add: pre post startswith_def strip_a strip_b)
qed

text \<open>
  C5. The ordered-list grouper is the unordered-list grouper with the marker \<open>"- "\<close>
  replaced by \<open>"* "\<close> and the container lines \<open>"<ul>\n"\<close>, \<open>"</ul>\n"\<close> by \<open>"<ol>\n"\<close>,
  \<open>"</ol>\n"\<close>: both are the one state machine of the specification, with the same item
  format, at these parameters.
\<close>

theorem ol_grouper_is_ul_grouper_substituted:
  "convert_markdown_ul_list_to_html lines =
     list_grouper_spec ''- '' ''<ul>\<newline>'' ''</ul>\<newline>'' False lines
   \<and> convert_markdown_ol_list_to_html lines =
     list_grouper_spec ''* '' ''<ol>\<newline>'' ''</ol>\<newline>'' False lines
   \<and> convert_markdown_ol_list_to_html [''* a\<newline>'', ''x\<newline>''] =
       [''<ol>\<newline>'', ''   <li>a</li>\<newline>'', ''</ol>\<newline>'', ''x\<newline>'']"
proof (intro conjI)
  show "convert_markdown_ul_list_to_html lines =
     list_grouper_spec ''- '' ''<ul>\<newline>'' ''</ul>\<newline>'' False lines"
    by (simp add: convert_markdown_ul_list_to_html_def ul_loop_spec)
  show "convert_markdown_ol_list_to_html lines =
     list_grouper_spec ''* '' ''<ol>\<newline>'' ''</ol>\<newline>'' False lines"
    by (simp add: convert_markdown_ol_list_to_html_def ol_loop_spec)
  show "convert_markdown_ol_list_to_html [''* a\<newline>'', ''x\<newline>''] =
       [''<ol>\<newline>'', ''   <li>a</li>\<newline>'', ''</ol>\<newline>'', ''x\<newline>'']"
    by (simp add: convert_markdown_ol_list_to_html_def startswith_def strip_a)
qed

lemma blank_no_marker: "\<not> startswith ''\<newline>'' ''- ''" "\<not> startswith ''\<newline>'' ''* ''"
  by (simp_all add: startswith_def)

text \<open>
  C6. The output of each list grouper has balanced containers. Labelling every appended
  line by the statement that appends it gives the output back when the labels are
  rendered, holds the non-items of the input as its unchanged lines and the item texts of
  the input as its items, and is balanced: an opening line stands only outside a block,
  a closing line only inside one (so a run of lines that are no items closes a block
  once), and no block is open at the end. An input that ends in an item ends in the
  closing line, and blank lines after it follow that one closing line.
\<close>

theorem list_groupers_balanced:
  "map (render_emission ''<ul>\<newline>'' ''</ul>\<newline>'') (grouper_emissions ''- '' False lines) =
     convert_markdown_ul_list_to_html lines
   \<and> map (render_emission ''<ol>\<newline>'' ''</ol>\<newline>'') (grouper_emissions ''* '' False lines) =
     convert_markdown_ol_list_to_html lines
   \<and> balanced_from False (grouper_emissions m False lines)
   \<and> count_list (grouper_emissions m False lines) Opening =
       count_list (grouper_emissions m False lines) Closing
   \<and> unchanged_lines (grouper_emissions m False lines) = filter (\<lambda>l. \<not> startswith l m) lines
   \<and> item_texts (grouper_emissions m False lines) =
       map (\<lambda>l. strip (drop (length m) l)) (filter (\<lambda>l. startswith l m) lines)
   \<and> (lines \<noteq> [] \<and> startswith (last lines) ''- '' \<longrightarrow>
        last (convert_markdown_ul_list_to_html lines) = ''</ul>\<newline>''
        \<and> convert_markdown_ul_list_to_html (lines @ replicate n ''\<newline>'') =
            convert_markdown_ul_list_to_html lines @ replicate n ''\<newline>'')
   \<and> (lines \<noteq> [] \<and> startswith (last lines) ''* '' \<longrightarrow>
        last (convert_markdown_ol_list_to_html lines) = ''</ol>\<newline>''
        \<and> convert_markdown_ol_list_to_html (lines @ replicate n ''\<newline>'') =
            convert_markdown_ol_list_to_html lines @ replicate n ''\<newline>'')"
proof (intro conjI impI)
  show "map (render_emission ''<ul>\<newline>'' ''</ul>\<newline>'') (grouper_emissions ''- '' False lines) =
     convert_markdown_ul_list_to_html lines"
    by (simp add: convert_markdown_ul_list_to_html_def ul_loop_spec grouper_emissions_render)
  show "map (render_emission ''<ol>\<newline>'' ''</ol>\<newline>'') (grouper_emissions ''* '' False lines) =
     convert_markdown_ol_list_to_html lines"
    by (simp add: convert_markdown_ol_list_to_html_def ol_loop_spec grouper_emissions_render)
  show "balanced_from False (grouper_emissions m False lines)"
    by (rule grouper_emissions_balanced)
  show "count_list (grouper_emissions m False lines) Opening =
       count_list (grouper_emissions m False lines) Closing"
    using balanced_count [OF grouper_emissions_balanced [of False m lines]] by simp
  show "unchanged_lines (grouper_emissions m False lines) = filter (\<lambda>l. \<not> startswith l m) lines"
    by (rule grouper_emissions_unchanged)
  show "item_texts (grouper_emissions m False lines) =
       map (\<lambda>l. strip (drop (length m) l)) (filter (\<lambda>l. startswith l m) lines)"
    by (rule grouper_emissions_items)
next
  assume h: "lines \<noteq> [] \<and> startswith (last lines) ''- ''"
  then show "last (convert_markdown_ul_list_to_html lines) = ''</ul>\<newline>''"
    using grouper_open_at_end [of lines "''- ''" "''<ul>\<newline>''" "''</ul>\<newline>''" False "[]"]
    by (simp add: convert_markdown_ul_list_to_html_def ul_loop_spec)
  from h show "convert_markdown_ul_list_to_html (lines @ replicate n ''\<newline>'') =
            convert_markdown_ul_list_to_html lines @ replicate n ''\<newline>''"
    by (simp add: convert_markdown_ul_list_to_html_def ul_loop_spec grouper_trailing_blank
        blank_no_marker)
next
  assume h: "lines \<noteq> [] \<and> startswith (last lines) ''* ''"
  then show "last (convert_markdown_ol_list_to_html lines) = ''</ol>\<newline>''"
    using grouper_open_at_end [of lines "''* ''" "''<ol>\<newline>''" "''</ol>\<newline>''" False "[]"]
    by (simp add: convert_markdown_ol_list_to_html_def ol_loop_spec)
  from h show "convert_markdown_ol_list_to_html (lines @ replicate n ''\<newline>'') =
            convert_markdown_ol_list_to_html lines @ replicate n ''\<newline>''"
    by (simp add: convert_markdown_ol_list_to_html_def ol_loop_spec grouper_trailing_blank
        blank_no_marker)
qed

theorem list_groupers_balanced_witness:
  "grouper_emissions ''- '' False [''- a\<newline>'', ''x\<newline>'', ''y\<newline>'', ''- b\<newline>''] =
     [Opening, ListItem ''a'', Closing, Unchanged ''x\<newline>'', Unchanged ''y\<newline>'',
      Opening, ListItem ''b'', Closing]
   \<and> balanced_from False (grouper_emissions ''- '' False [''- a\<newline>'', ''x\<newline>'', ''y\<newline>'', ''- b\<newline>''])
   \<and> last (convert_markdown_ul_list_to_html [''- a\<newline>'', ''x\<newline>'', ''y\<newline>'', ''- b\<newline>'']) = ''</ul>\<newline>''
   \<and> convert_markdown_ul_list_to_html ([''- a\<newline>'', ''x\<newline>'', ''y\<newline>'', ''- b\<newline>''] @ replicate 2 ''\<newline>'') =
       [''<ul>\<newline>'', ''   <li>a</li>\<newline>'', ''</ul>\<newline>'', ''x\<newline>'', ''y\<newline>'',
        ''<ul>\<newline>'', ''   <li>b</li>\<newline>'', ''</ul>\<newline>'', ''\<newline>'', ''\<newline>'']
   \<and> convert_markdown_ol_list_to_html ([''* a\<newline>''] @ replicate 1 ''\<newline>'') =
       [''<ol>\<newline>'', ''   <li>a</li>\<newline>'', ''</ol>\<newline>'', ''\<newline>'']"
proof -
  have ev: "grouper_emissions ''- '' False [''- a\<newline>'', ''x\<newline>'', ''y\<newline>'', ''- b\<newline>''] =
     [Opening, ListItem ''a'', Closing, Unchanged ''x\<newline>'', Unchanged ''y\<newline>'',
      Opening, ListItem ''b'', Closing]"
    by (simp add: startswith_def strip_a strip_b)
  have ul: "convert_markdown_ul_list_to_html [''- a\<newline>'', ''x\<newline>'', ''y\<newline>'', ''- b\<newline>''] =
       [''<ul>\<newline>'', ''   <li>a</li>\<newline>'', ''</ul>\<newline>'', ''x\<newline>'', ''y\<newline>'',
        ''<ul>\<newline>'', ''   <li>b</li>\<newline>'', ''</ul>\<newline>'']"
    by (simp add: convert_markdown_ul_list_to_html_def startswith_def strip_a strip_b)
  have ol: "convert_markdown_ol_list_to_html [''* a\<newline>''] =
       [''<ol>\<newline>'', ''   <li>a</li>\<newline>'', ''</ol>\<newline>'']"
    by (simp add: convert_markdown_ol_list_to_html_def startswith_def strip_a)
  show ?thesis
    using list_groupers_balanced [of "[''- a\<newline>'', ''x\<newline>'', ''y\<newline>'', ''- b\<newline>'']" "''- ''" 2]
      list_groupers_balanced [of "[''* a\<newline>'']" "''* ''" 1]
    by (simp add: ev ul ol startswith_def numeral_2_eq_2)
qed

section \<open>Properties of the paragraph grouper\<close>

lemma strip_last_break_snoc:
  "strip_last_break (acc @ [c]) = Inr (acc @ [close_break c])"
  by (simp add: strip_last_break_def close_break_def)

lemma par_loop_emit:
  "par_loop False acc ls = Inr (acc @ par_emit None ls)
   \<and> par_loop True (acc @ [c]) ls = Inr (acc @ par_emit (Some c) ls)"
proof (induction ls arbitrary: acc c)
  case Nil
  show ?case by (simp add: strip_last_break_snoc)
next
  case (Cons l ls)
  have t: "\<And>acc c. par_loop True (acc @ [c]) ls = Inr (acc @ par_emit (Some c) ls)"
    and f: "\<And>acc. par_loop False acc ls = Inr (acc @ par_emit None ls)"
    using Cons.IH by blast+
  show ?case
  proof (cases "paragraph_line l")
    case True
    have "par_loop False acc (l # ls) = par_loop True ((acc @ [''<p>\<newline>'']) @ [content_line l]) ls"
      using True by (simp add: content_line_def)
    moreover have "par_loop True (acc @ [c]) (l # ls) = par_loop True ((acc @ [c]) @ [content_line l]) ls"
      using True by (simp add: content_line_def)
    ultimately show ?thesis
      using True by (simp only: t) simp
  next
    case False
    have "par_loop True (acc @ [c]) (l # ls) =
        par_loop False (acc @ [close_break c, ''</p>\<newline>'', l]) ls"
      using False by (simp add: strip_last_break_snoc)
    moreover have "par_loop False acc (l # ls) = par_loop False (acc @ [l]) ls"
      using False by simp
    ultimately show ?thesis
      using False by (simp only: f) simp
  qed
qed

lemma paragraph_emit:
  "convert_markdown_paragraph_to_html lines = Inr (par_emit None lines)"
  using par_loop_emit [of "[]" lines] by (simp add: convert_markdown_paragraph_to_html_def)

lemma par_emit_contents:
  "\<forall>l \<in> set run. paragraph_line l \<Longrightarrow>
   par_emit (Some c) (run @ post) =
     butlast (c # map content_line run) @ par_emit (Some (last (c # map content_line run))) post"
  by (induction run arbitrary: c) simp_all

lemma par_emit_close:
  "post = [] \<or> \<not> paragraph_line (hd post) \<Longrightarrow>
   par_emit (Some c) post = close_break c # ''</p>\<newline>'' # par_emit None post"
  by (cases post) auto

lemma par_emit_run:
  assumes "run \<noteq> []" "\<forall>l \<in> set run. paragraph_line l"
    and "post = [] \<or> \<not> paragraph_line (hd post)"
  shows "par_emit None (run @ post) =
     ''<p>\<newline>'' # map content_line (butlast run)
       @ [close_break (content_line (last run)), ''</p>\<newline>''] @ par_emit None post"
proof -
  from assms(1) obtain l rest where run: "run = l # rest" by (cases run) auto
  with assms(2) have l: "paragraph_line l" and rest: "\<forall>l \<in> set rest. paragraph_line l" by auto
  have "butlast (content_line l # map content_line rest) = map content_line (butlast run)"
    unfolding run by (simp add: map_butlast)
  moreover have "last (content_line l # map content_line rest) = content_line (last run)"
    unfolding run by (simp add: last_map)
  ultimately show ?thesis
    using l by (simp add: run par_emit_contents [OF rest] par_emit_close [OF assms(3)]
        del: butlast.simps last.simps)
qed

lemma par_emit_prefix:
  "pre \<noteq> [] \<Longrightarrow> \<not> paragraph_line (last pre) \<Longrightarrow>
   par_emit po (pre @ rest) = par_emit po pre @ par_emit None rest"
proof (induction pre arbitrary: po)
  case Nil
  then show ?case by simp
next
  case (Cons l pre)
  show ?case
  proof (cases "pre = []")
    case True
    with Cons.prems show ?thesis by (cases po) simp_all
  next
    case False
    with Cons show ?thesis by (cases po) simp_all
  qed
qed

lemma par_emit_prefix':
  "pre = [] \<or> \<not> paragraph_line (last pre) \<Longrightarrow>
   par_emit None (pre @ rest) = par_emit None pre @ par_emit None rest"
  by (cases "pre = []") (auto simp: par_emit_prefix)

lemma par_emit_subseq:
  "subseq (filter (\<lambda>l. \<not> paragraph_line l) ls) (par_emit po ls)"
proof (induction ls arbitrary: po)
  case Nil
  then show ?case by simp
next
  case (Cons l ls)
  then show ?case by (cases po) (auto intro: subseq_Cons')
qed

lemma first_newline_unique:
  assumes "CHR 0x0A \<notin> set p" "CHR 0x0A \<notin> set u" "p @ CHR 0x0A # r = u @ CHR 0x0A # v"
  shows "p = u"
proof -
  have "takeWhile (\<lambda>c. c \<noteq> CHR 0x0A) (p @ CHR 0x0A # r) = p"
    using assms(1) by (auto simp: takeWhile_tail)
  moreover have "takeWhile (\<lambda>c. c \<noteq> CHR 0x0A) (u @ CHR 0x0A # v) = u"
    using assms(2) by (auto simp: takeWhile_tail)
  ultimately show ?thesis using assms(3) by simp
qed

lemma replace_break_end:
  "CHR 0x0A \<notin> set t \<Longrightarrow> replace (t @ ''<br/>\<newline>'') ''<br/>\<newline>'' ''\<newline>'' = t @ ''\<newline>''"
proof (induction t)
  case Nil
  have "replace [] ''<br/>\<newline>'' ''\<newline>'' = []"
    by (subst replace.simps) simp
  then show ?case
    by (subst replace.simps) simp
next
  case (Cons c t)
  have "take (length ''<br/>\<newline>'') ((c # t) @ ''<br/>\<newline>'') \<noteq> ''<br/>\<newline>''"
  proof
    assume "take (length ''<br/>\<newline>'') ((c # t) @ ''<br/>\<newline>'') = ''<br/>\<newline>''"
    then have "prefix ''<br/>\<newline>'' ((c # t) @ ''<br/>\<newline>'')"
      by (metis take_is_prefix)
    then obtain r where "''<br/>'' @ CHR 0x0A # r = ((c # t) @ ''<br/>'') @ CHR 0x0A # []"
      by (auto simp: prefix_def)
    moreover have "CHR 0x0A \<notin> set ''<br/>''" by simp
    moreover have "CHR 0x0A \<notin> set ((c # t) @ ''<br/>'')" using Cons.prems by simp
    ultimately have "''<br/>'' = (c # t) @ ''<br/>''"
      by (rule first_newline_unique [rotated 2])
    then show False by simp
  qed
  then have "replace ((c # t) @ ''<br/>\<newline>'') ''<br/>\<newline>'' ''\<newline>'' =
      c # replace (t @ ''<br/>\<newline>'') ''<br/>\<newline>'' ''\<newline>''"
    by (subst replace.simps) simp
  with Cons show ?case by simp
qed

lemma close_break_content:
  "CHR 0x0A \<notin> set (strip line) \<Longrightarrow>
   close_break (content_line line) = ''    '' @ strip line @ ''\<newline>''"
  using replace_break_end [of "''    '' @ strip line"]
  by (simp add: close_break_def content_line_def)

lemma strip_x_br: "strip ''x<br/>\<newline>'' = ''x<br/>''"
  and strip_line1: "strip ''line1\<newline>'' = ''line1''"
  and strip_line2: "strip ''line2\<newline>'' = ''line2''"
  and strip_blank: "strip ''\<newline>'' = []"
  by (simp_all add: strip_def isspace_def)

lemma paragraph_line_iff:
  "paragraph_line l =
     (strip l \<noteq> [] \<and> hd (strip l) \<notin> {CHR ''#'', CHR ''-'', CHR ''*''})"
  by (cases "strip l") (auto simp: paragraph_line_def startswith_any_def startswith_def)

lemma close_x_br: "close_break ''    x<br/><br/>\<newline>'' = ''    x<br/>\<newline>''"
  using replace_break_end [of "''    x<br/>''"] by (simp add: close_break_def)

lemma close_line2: "close_break ''    line2<br/>\<newline>'' = ''    line2\<newline>''"
  by (simp add: close_break_def replace.simps)

lemma strip_a_nl: "strip ''a\<newline>'' = ''a''"
  by (simp add: strip_def isspace_def)

lemma close_line1: "close_break ''    line1<br/>\<newline>'' = ''    line1\<newline>''"
  by (simp add: close_break_def replace.simps)

lemma par_emit_upto:
  "paragraph_line l \<Longrightarrow>
   \<exists>A. par_emit po (pre @ l # post) = A @ par_emit (Some (content_line l)) post"
proof (induction pre arbitrary: po)
  case Nil
  then show ?case by (cases po) auto
next
  case (Cons x pre)
  obtain A where A: "par_emit (Some (content_line x)) (pre @ l # post) =
      A @ par_emit (Some (content_line l)) post"
    using Cons.IH [OF Cons.prems] by blast
  obtain B where B: "par_emit None (pre @ l # post) = B @ par_emit (Some (content_line l)) post"
    using Cons.IH [OF Cons.prems] by blast
  show ?case
  proof (cases po)
    case None
    show ?thesis
    proof (cases "paragraph_line x")
      case True
      with None A have "par_emit po ((x # pre) @ l # post) =
          (''<p>\<newline>'' # A) @ par_emit (Some (content_line l)) post" by simp
      then show ?thesis by blast
    next
      case False
      with None B have "par_emit po ((x # pre) @ l # post) =
          (x # B) @ par_emit (Some (content_line l)) post" by simp
      then show ?thesis by blast
    qed
  next
    case (Some c)
    show ?thesis
    proof (cases "paragraph_line x")
      case True
      with Some A have "par_emit po ((x # pre) @ l # post) =
          (c # A) @ par_emit (Some (content_line l)) post" by simp
      then show ?thesis by blast
    next
      case False
      with Some B have "par_emit po ((x # pre) @ l # post) =
          (close_break c # ''</p>\<newline>'' # x # B) @ par_emit (Some (content_line l)) post" by simp
      then show ?thesis by blast
    qed
  qed
qed

text \<open>
  C3, the claim as stated, fails: the closing step removes the \<open><br/>\<close> the grouper
  appended, and a \<open><br/>\<close> that ends the line's own text stays before the newline.
\<close>

theorem paragraph_last_line_own_break:
  "convert_markdown_paragraph_to_html [''x<br/>\<newline>''] =
     Inr [''<p>\<newline>'', ''    x<br/>\<newline>'', ''</p>\<newline>'']"
  by (simp add: paragraph_emit paragraph_line_iff strip_x_br close_x_br content_line_def)

text \<open>
  C3, amended. For every maximal run of lines that pass the test of line 116, the output
  is the grouping of the lines before, \<open>"<p>\n"\<close>, one content line
  \<open>"    " + stripped + "<br/>\n"\<close> for each line of the run but the last, the last line's
  content line with every \<open>"<br/>\n"\<close> replaced by \<open>"\n"\<close>, \<open>"</p>\n"\<close>, and the grouping of
  the lines after; when the last line's stripped text holds no newline its content line is
  \<open>"    " + stripped + "\n"\<close>. The same holds for a paragraph open at the end of input.
\<close>

theorem paragraph_blocks:
  "(run \<noteq> [] \<and> (\<forall>l \<in> set run. paragraph_line l)
      \<and> (pre = [] \<or> \<not> paragraph_line (last pre))
      \<and> (post = [] \<or> \<not> paragraph_line (hd post)) \<longrightarrow>
      (\<exists>A B. convert_markdown_paragraph_to_html pre = Inr A
         \<and> convert_markdown_paragraph_to_html post = Inr B
         \<and> convert_markdown_paragraph_to_html (pre @ run @ post) =
             Inr (A @ [''<p>\<newline>'']
                    @ map (\<lambda>l. ''    '' @ strip l @ ''<br/>\<newline>'') (butlast run)
                    @ [replace (''    '' @ strip (last run) @ ''<br/>\<newline>'') ''<br/>\<newline>'' ''\<newline>'',
                       ''</p>\<newline>'']
                    @ B))
      \<and> (CHR 0x0A \<notin> set (strip (last run)) \<longrightarrow>
           replace (''    '' @ strip (last run) @ ''<br/>\<newline>'') ''<br/>\<newline>'' ''\<newline>'' =
             ''    '' @ strip (last run) @ ''\<newline>''))
   \<and> convert_markdown_paragraph_to_html [''line1\<newline>'', ''line2\<newline>'', ''\<newline>''] =
       Inr [''<p>\<newline>'', ''    line1<br/>\<newline>'', ''    line2\<newline>'', ''</p>\<newline>'', ''\<newline>'']
   \<and> convert_markdown_paragraph_to_html [''line1\<newline>'', ''line2\<newline>''] =
       Inr [''<p>\<newline>'', ''    line1<br/>\<newline>'', ''    line2\<newline>'', ''</p>\<newline>'']"
proof (intro conjI impI)
  assume h: "run \<noteq> [] \<and> (\<forall>l \<in> set run. paragraph_line l)
      \<and> (pre = [] \<or> \<not> paragraph_line (last pre))
      \<and> (post = [] \<or> \<not> paragraph_line (hd post))"
  then have "par_emit None (run @ post) =
     ''<p>\<newline>'' # map content_line (butlast run)
       @ [close_break (content_line (last run)), ''</p>\<newline>''] @ par_emit None post"
    by (intro par_emit_run) auto
  moreover from h have "par_emit None (pre @ run @ post) =
      par_emit None pre @ par_emit None (run @ post)"
    by (intro par_emit_prefix') auto
  ultimately have "convert_markdown_paragraph_to_html (pre @ run @ post) =
      Inr (par_emit None pre @ [''<p>\<newline>'']
             @ map (\<lambda>l. ''    '' @ strip l @ ''<br/>\<newline>'') (butlast run)
             @ [replace (''    '' @ strip (last run) @ ''<br/>\<newline>'') ''<br/>\<newline>'' ''\<newline>'',
                ''</p>\<newline>'']
             @ par_emit None post)"
    by (simp add: paragraph_emit content_line_def close_break_def)
  then show "\<exists>A B. convert_markdown_paragraph_to_html pre = Inr A
         \<and> convert_markdown_paragraph_to_html post = Inr B
         \<and> convert_markdown_paragraph_to_html (pre @ run @ post) =
             Inr (A @ [''<p>\<newline>'']
                    @ map (\<lambda>l. ''    '' @ strip l @ ''<br/>\<newline>'') (butlast run)
                    @ [replace (''    '' @ strip (last run) @ ''<br/>\<newline>'') ''<br/>\<newline>'' ''\<newline>'',
                       ''</p>\<newline>'']
                    @ B)"
    by (simp add: paragraph_emit)
next
  assume "CHR 0x0A \<notin> set (strip (last run))"
  then show "replace (''    '' @ strip (last run) @ ''<br/>\<newline>'') ''<br/>\<newline>'' ''\<newline>'' =
             ''    '' @ strip (last run) @ ''\<newline>''"
    using replace_break_end [of "''    '' @ strip (last run)"] by simp
next
  show "convert_markdown_paragraph_to_html [''line1\<newline>'', ''line2\<newline>'', ''\<newline>''] =
       Inr [''<p>\<newline>'', ''    line1<br/>\<newline>'', ''    line2\<newline>'', ''</p>\<newline>'', ''\<newline>'']"
    by (simp add: paragraph_emit paragraph_line_iff strip_line1 strip_line2 strip_blank
      close_line2 content_line_def)
next
  show "convert_markdown_paragraph_to_html [''line1\<newline>'', ''line2\<newline>''] =
       Inr [''<p>\<newline>'', ''    line1<br/>\<newline>'', ''    line2\<newline>'', ''</p>\<newline>'']"
    by (simp add: paragraph_emit paragraph_line_iff strip_line1 strip_line2
      close_line2 content_line_def)
qed

theorem paragraph_blocks_witness:
  "convert_markdown_paragraph_to_html ([''\<newline>''] @ [''line1\<newline>'', ''x<br/>\<newline>''] @ [''\<newline>'', ''line2\<newline>'']) =
     Inr ([''\<newline>''] @ [''<p>\<newline>''] @ [''    line1<br/>\<newline>''] @ [''    x<br/>\<newline>'', ''</p>\<newline>'']
          @ [''\<newline>'', ''<p>\<newline>'', ''    line2\<newline>'', ''</p>\<newline>''])"
proof -
  have pre: "convert_markdown_paragraph_to_html [''\<newline>''] = Inr [''\<newline>'']"
    by (simp add: paragraph_emit paragraph_line_iff strip_blank)
  have post: "convert_markdown_paragraph_to_html [''\<newline>'', ''line2\<newline>''] =
      Inr [''\<newline>'', ''<p>\<newline>'', ''    line2\<newline>'', ''</p>\<newline>'']"
    by (simp add: paragraph_emit paragraph_line_iff strip_blank strip_line2 close_line2
        content_line_def)
  have cl: "replace ''    x<br/><br/>\<newline>'' ''<br/>\<newline>'' ''\<newline>'' = ''    x<br/>\<newline>''"
    using close_x_br by (simp add: close_break_def)
  show ?thesis
    using paragraph_blocks [of "[''line1\<newline>'', ''x<br/>\<newline>'']" "[''\<newline>'']" "[''\<newline>'', ''line2\<newline>'']"]
    by (simp add: pre post cl paragraph_line_iff strip_blank strip_line1 strip_x_br)
qed

section \<open>Lines a stage leaves alone\<close>

lemma heading_try_other: "\<not> heading_prefix line \<Longrightarrow> heading_try range_6_0 line = line"
  by (rule heading_try_miss) (simp add: heading_prefix_def list_ex_iff)

lemma heading_map: "convert_markdown_heading_to_html lines = map (heading_try range_6_0) lines"
  by (simp add: convert_markdown_heading_to_html_def heading_loop_map)

lemma heading_subseq:
  "subseq (filter (\<lambda>l. \<not> heading_prefix l) lines) (map (heading_try range_6_0) lines)"
  by (induction lines) (auto simp: heading_try_other)

lemma strip_keeps_first:
  assumes "\<not> isspace c"
  shows "strip (c # r) \<noteq> [] \<and> hd (strip (c # r)) = c"
proof -
  have "dropWhile isspace (rev r @ [c]) = dropWhile isspace (rev r) @ [c]
        \<or> dropWhile isspace (rev r @ [c]) = [c]"
    using assms by (simp add: dropWhile_append)
  then have "\<exists>u. rev (dropWhile isspace (rev r @ [c])) = c # u"
    by (metis rev.simps(1) rev_append rev_singleton_conv append_Cons append_Nil)
  then show ?thesis
    using assms by (auto simp: strip_def)
qed

lemma paragraph_line_first:
  "paragraph_line l \<Longrightarrow> l \<noteq> [] \<Longrightarrow> hd l \<notin> {CHR ''#'', CHR ''-'', CHR ''*''}"
proof (cases l)
  case Nil
  then show "l \<noteq> [] \<Longrightarrow> ?thesis" by simp
next
  case (Cons c r)
  assume p: "paragraph_line l"
  show ?thesis
  proof
    assume "hd l \<in> {CHR ''#'', CHR ''-'', CHR ''*''}"
    then have c: "c \<in> {CHR ''#'', CHR ''-'', CHR ''*''}" using Cons by simp
    then have "\<not> isspace c" by (auto simp: isspace_def)
    from strip_keeps_first [OF this, of r] c p show False
      by (simp add: Cons paragraph_line_iff)
  qed
qed

lemma paragraph_line_no_prefix:
  assumes "paragraph_line l"
  shows "\<not> heading_prefix l" "\<not> startswith l ''- ''" "\<not> startswith l ''* ''"
proof -
  have h: "l \<noteq> [] \<Longrightarrow> hd l \<notin> {CHR ''#'', CHR ''-'', CHR ''*''}"
    using paragraph_line_first [OF assms] .
  show "\<not> startswith l ''- ''" "\<not> startswith l ''* ''"
    using h by (cases l; auto simp: startswith_Cons)+
  show "\<not> heading_prefix l"
  proof
    assume "heading_prefix l"
    then obtain i where "i \<in> set range_6_0" "startswith l (replicate i CHR ''#'' @ '' '')"
      by (auto simp: heading_prefix_def list_ex_iff)
    then have "1 \<le> i" "leading_hashes l = i"
      by (simp_all add: set_range_6_0 startswith_hashes_space)
    then have "l \<noteq> [] \<and> hd l = CHR ''#''"
      by (cases l) (auto split: if_splits)
    with h show False by simp
  qed
qed

lemma grouper_keeps:
  "l \<in> set ls \<Longrightarrow> \<not> startswith l m \<Longrightarrow> l \<in> set (list_grouper_spec m opn cls b ls)"
  by (induction ls arbitrary: b) auto

lemma grouper_adds_tags:
  "set (list_grouper_spec m opn cls b ls) \<subseteq>
     {opn, cls} \<union> {l \<in> set ls. \<not> startswith l m}
       \<union> (\<lambda>l. ''   <li>'' @ strip (drop (length m) l) @ ''</li>\<newline>'') ` set ls"
  by (induction ls arbitrary: b) auto

lemma heading_keeps:
  "l \<in> set ls \<Longrightarrow> \<not> heading_prefix l \<Longrightarrow> l \<in> set (convert_markdown_heading_to_html ls)"
  using heading_try_other by (force simp: heading_map)

lemma par_emit_pending: "c \<in> set (par_emit (Some c) ls) \<or> close_break c \<in> set (par_emit (Some c) ls)"
  by (cases ls) auto

lemma par_emit_wraps:
  "t \<in> set ls \<Longrightarrow> paragraph_line t \<Longrightarrow>
   content_line t \<in> set (par_emit po ls) \<or> close_break (content_line t) \<in> set (par_emit po ls)"
proof (induction ls arbitrary: po)
  case Nil
  then show ?case by simp
next
  case (Cons x ls)
  show ?case
  proof (cases "t = x")
    case True
    with Cons.prems par_emit_pending [of "content_line x" ls] show ?thesis
      by (cases po) auto
  next
    case False
    with Cons.prems have "t \<in> set ls" by simp
    from Cons.IH [OF this Cons.prems(2)] show ?thesis
      by (cases po) auto
  qed
qed

lemma close_break_indent: "\<exists>r. close_break (content_line x) = CHR '' '' # r"
  unfolding close_break_def content_line_def
  by (subst replace.simps) simp

lemma content_no_marker:
  "content_line x \<noteq> ''<p>\<newline>''" "content_line x \<noteq> ''</p>\<newline>''"
  "close_break (content_line x) \<noteq> ''<p>\<newline>''" "close_break (content_line x) \<noteq> ''</p>\<newline>''"
  using close_break_indent [of x] by (auto simp: content_line_def)

lemma strip_x: "strip ''x'' = ''x''"
  by (simp add: strip_def isspace_def)

text \<open>
  C7. Each of the four stages leaves every input line that does not match its pattern as
  it is, terminator included: the lines of the input that match no heading prefix, do not
  start with \<open>"- "\<close>, do not start with \<open>"* "\<close>, or fail the test of line 116, stand in the
  output of the respective stage, unchanged and in their order; the heading rewriter also
  keeps them at their positions.
\<close>

theorem stages_keep_other_lines:
  "subseq (filter (\<lambda>l. \<not> heading_prefix l) lines) (convert_markdown_heading_to_html lines)
   \<and> length (convert_markdown_heading_to_html lines) = length lines
   \<and> (\<forall>i < length lines. \<not> heading_prefix (lines ! i) \<longrightarrow>
         convert_markdown_heading_to_html lines ! i = lines ! i)
   \<and> subseq (filter (\<lambda>l. \<not> startswith l ''- '') lines) (convert_markdown_ul_list_to_html lines)
   \<and> subseq (filter (\<lambda>l. \<not> startswith l ''* '') lines) (convert_markdown_ol_list_to_html lines)
   \<and> (\<exists>out. convert_markdown_paragraph_to_html lines = Inr out
         \<and> subseq (filter (\<lambda>l. \<not> paragraph_line l) lines) out)"
proof (intro conjI allI impI)
  show "subseq (filter (\<lambda>l. \<not> heading_prefix l) lines) (convert_markdown_heading_to_html lines)"
    by (simp add: heading_map heading_subseq)
  show "length (convert_markdown_heading_to_html lines) = length lines"
    by (simp add: heading_map)
  show "subseq (filter (\<lambda>l. \<not> startswith l ''- '') lines) (convert_markdown_ul_list_to_html lines)"
    by (simp add: convert_markdown_ul_list_to_html_def ul_loop_spec grouper_subseq)
  show "subseq (filter (\<lambda>l. \<not> startswith l ''* '') lines) (convert_markdown_ol_list_to_html lines)"
    by (simp add: convert_markdown_ol_list_to_html_def ol_loop_spec grouper_subseq)
  show "\<exists>out. convert_markdown_paragraph_to_html lines = Inr out
         \<and> subseq (filter (\<lambda>l. \<not> paragraph_line l) lines) out"
    by (simp add: paragraph_emit par_emit_subseq)
next
  fix i
  assume "i < length lines" "\<not> heading_prefix (lines ! i)"
  then show "convert_markdown_heading_to_html lines ! i = lines ! i"
    by (simp add: heading_map heading_try_other)
qed

theorem stages_keep_other_lines_witness:
  "convert_markdown_heading_to_html [''# t\<newline>'', ''x''] ! 1 = ''x''
   \<and> subseq [''x''] (convert_markdown_ul_list_to_html [''- a\<newline>'', ''x''])
   \<and> subseq [''x''] (convert_markdown_ol_list_to_html [''* a\<newline>'', ''x''])
   \<and> (\<exists>out. convert_markdown_paragraph_to_html [''a\<newline>'', ''\<newline>'', ''# t''] = Inr out
         \<and> subseq [''\<newline>'', ''# t''] out)"
proof -
  have h: "\<not> heading_prefix ''x''"
    by (simp add: heading_prefix_def range_6_0_def startswith_def)
  have p: "paragraph_line ''a\<newline>''" "\<not> paragraph_line ''\<newline>''" "\<not> paragraph_line ''# t''"
    by (simp_all add: paragraph_line_iff strip_def isspace_def)
  show ?thesis
    using stages_keep_other_lines [of "[''# t\<newline>'', ''x'']"] h
      stages_keep_other_lines [of "[''- a\<newline>'', ''x'']"]
      stages_keep_other_lines [of "[''* a\<newline>'', ''x'']"]
      stages_keep_other_lines [of "[''a\<newline>'', ''\<newline>'', ''# t'']"] p
    by (simp add: startswith_def)
qed

lemma par_emit_wraps_block:
  assumes "paragraph_line l"
  shows "\<exists>A cs c ds B.
      par_emit None (pre @ [l] @ post) = A @ [''<p>\<newline>''] @ cs @ [c] @ ds @ [''</p>\<newline>''] @ B
      \<and> (c = content_line l \<or> c = close_break (content_line l))
      \<and> ''<p>\<newline>'' \<notin> set (cs @ ds) \<and> ''</p>\<newline>'' \<notin> set (cs @ ds)"
proof -
  define r1 where "r1 = rev (takeWhile paragraph_line (rev pre))"
  define pre' where "pre' = rev (dropWhile paragraph_line (rev pre))"
  define r2 where "r2 = takeWhile paragraph_line post"
  define post' where "post' = dropWhile paragraph_line post"
  have "rev pre = takeWhile paragraph_line (rev pre) @ dropWhile paragraph_line (rev pre)"
    by simp
  then have "rev (rev pre) = pre' @ r1"
    unfolding r1_def pre'_def by (metis rev_append)
  then have pre: "pre = pre' @ r1" by simp
  have post: "post = r2 @ post'"
    by (simp add: r2_def post'_def)
  have r1: "\<forall>x \<in> set r1. paragraph_line x"
    by (auto simp: r1_def dest: set_takeWhileD)
  have r2: "\<forall>x \<in> set r2. paragraph_line x"
    by (auto simp: r2_def dest: set_takeWhileD)
  have b1: "pre' = [] \<or> \<not> paragraph_line (last pre')"
    unfolding pre'_def by (metis hd_dropWhile last_rev rev_is_Nil_conv)
  have b2: "post' = [] \<or> \<not> paragraph_line (hd post')"
    unfolding post'_def by (metis hd_dropWhile)
  let ?run = "r1 @ l # r2"
  have run: "?run \<noteq> []" "\<forall>x \<in> set ?run. paragraph_line x"
    using r1 r2 assms by auto
  have "par_emit None (pre' @ ?run @ post') = par_emit None pre' @ par_emit None (?run @ post')"
    using b1 by (rule par_emit_prefix')
  also have "par_emit None (?run @ post') =
      ''<p>\<newline>'' # map content_line (butlast ?run)
        @ [close_break (content_line (last ?run)), ''</p>\<newline>''] @ par_emit None post'"
    using run b2 by (rule par_emit_run)
  finally have E: "par_emit None (pre @ [l] @ post) =
      par_emit None pre' @ [''<p>\<newline>''] @ map content_line (butlast ?run)
        @ [close_break (content_line (last ?run))] @ [''</p>\<newline>''] @ par_emit None post'"
    by (simp add: pre post)
  have nm: "\<And>xs. ''<p>\<newline>'' \<notin> set (map content_line xs) \<and> ''</p>\<newline>'' \<notin> set (map content_line xs)"
    by (metis content_no_marker(1,2) imageE list.set_map)
  show ?thesis
  proof (cases "r2 = []")
    case True
    then have "par_emit None (pre @ [l] @ post) =
        par_emit None pre' @ [''<p>\<newline>''] @ map content_line r1
          @ [close_break (content_line l)] @ [] @ [''</p>\<newline>''] @ par_emit None post'"
      using E by (simp add: butlast_append)
    moreover have "''<p>\<newline>'' \<notin> set (map content_line r1 @ [])
        \<and> ''</p>\<newline>'' \<notin> set (map content_line r1 @ [])"
      using nm [of r1] by simp
    ultimately show ?thesis by blast
  next
    case False
    let ?ds = "map content_line (butlast r2) @ [close_break (content_line (last r2))]"
    from False have "par_emit None (pre @ [l] @ post) =
        par_emit None pre' @ [''<p>\<newline>''] @ map content_line r1
          @ [content_line l] @ ?ds @ [''</p>\<newline>''] @ par_emit None post'"
      using E by (simp add: butlast_append)
    moreover have "''<p>\<newline>'' \<notin> set (map content_line r1 @ ?ds)
        \<and> ''</p>\<newline>'' \<notin> set (map content_line r1 @ ?ds)"
      using nm [of r1] nm [of "butlast r2"] content_no_marker(3,4) [of "last r2"]
      by (simp del: set_map)
    ultimately show ?thesis by blast
  qed
qed

section \<open>The stages in sequence\<close>

lemma pipeline_emit:
  "pipeline lines =
     Inr (par_emit None
            (list_grouper_spec ''* '' ''<ol>\<newline>'' ''</ol>\<newline>'' False
               (list_grouper_spec ''- '' ''<ul>\<newline>'' ''</ul>\<newline>'' False
                  (map (heading_try range_6_0) lines))))"
  by (simp add: pipeline_def paragraph_emit convert_markdown_ol_list_to_html_def ol_loop_spec
      convert_markdown_ul_list_to_html_def ul_loop_spec heading_map)

lemma pipeline_keeps_plain:
  assumes "t \<in> set lines" "paragraph_line t"
  shows "\<exists>out. pipeline lines = Inr out
          \<and> (content_line t \<in> set out \<or> close_break (content_line t) \<in> set out)"
proof -
  note np = paragraph_line_no_prefix [OF assms(2)]
  have "t \<in> set (convert_markdown_heading_to_html lines)"
    using assms(1) np(1) by (rule heading_keeps)
  then have "t \<in> set (map (heading_try range_6_0) lines)"
    by (simp add: heading_map)
  then have "t \<in> set (list_grouper_spec ''- '' ''<ul>\<newline>'' ''</ul>\<newline>'' False
                  (map (heading_try range_6_0) lines))"
    using np(2) by (rule grouper_keeps)
  then have "t \<in> set (list_grouper_spec ''* '' ''<ol>\<newline>'' ''</ol>\<newline>'' False
               (list_grouper_spec ''- '' ''<ul>\<newline>'' ''</ul>\<newline>'' False
                  (map (heading_try range_6_0) lines)))"
    using np(3) by (rule grouper_keeps)
  then show ?thesis
    using assms(2) by (simp add: pipeline_emit par_emit_wraps)
qed

lemma tag_lines_plain:
  "paragraph_line ''<ul>\<newline>''" "paragraph_line ''</ul>\<newline>''"
  "paragraph_line ''<ol>\<newline>''" "paragraph_line ''</ol>\<newline>''"
  "paragraph_line ''<p>\<newline>''" "paragraph_line ''</p>\<newline>''"
  "paragraph_line ''<h3>Title</h3>\<newline>''" "paragraph_line ''   <li>a</li>\<newline>''"
  by (simp_all add: paragraph_line_iff strip_def isspace_def)

lemma pipeline_example_1:
  "pipeline [''# T\<newline>'', ''- a\<newline>''] =
     Inr [''<p>\<newline>'', ''    <h1>T</h1><br/>\<newline>'', ''    <ul><br/>\<newline>'',
          ''    <li>a</li><br/>\<newline>'', ''    </ul>\<newline>'', ''</p>\<newline>'']"
  by (simp add: pipeline_emit heading_try_range startswith_def str_nat.simps strip_def isspace_def
      paragraph_line_iff content_line_def close_break_def replace.simps)

lemma pipeline_example_2:
  "pipeline [''<p>\<newline>'', ''    <h1>T</h1><br/>\<newline>'', ''    <ul><br/>\<newline>'',
          ''    <li>a</li><br/>\<newline>'', ''    </ul>\<newline>'', ''</p>\<newline>''] =
     Inr [''<p>\<newline>'', ''    <p><br/>\<newline>'', ''    <h1>T</h1><br/><br/>\<newline>'',
          ''    <ul><br/><br/>\<newline>'', ''    <li>a</li><br/><br/>\<newline>'',
          ''    </ul><br/>\<newline>'', ''    </p>\<newline>'', ''</p>\<newline>'']"
  by (simp add: pipeline_emit heading_try_range startswith_def str_nat.simps strip_def isspace_def
      paragraph_line_iff content_line_def close_break_def replace.simps)


lemma strip_tags: "strip ''<ul>\<newline>'' = ''<ul>''" "strip ''<p>\<newline>'' = ''<p>''"
  by (simp_all add: strip_def isspace_def)

text \<open>
  C4. A line whose stripped form is not empty and starts with none of \<open>#\<close>, \<open>-\<close>, \<open>*\<close> --
  so also a tag line such as \<open>"<ul>\n"\<close> or \<open>"<h3>Title</h3>\n"\<close> written by an earlier
  stage -- is a content line of a paragraph in the output of the paragraph grouper: it
  stands, indented and with its soft break (or as the closed last line), between a
  \<open>"<p>\n"\<close> and a \<open>"</p>\n"\<close> with no paragraph marker in between. The four stages in
  sequence return normally on every input, so also on their own output, and every such
  line of that output is a content line of the second output.
\<close>

theorem tag_lines_wrapped_in_paragraphs:
  "(strip l \<noteq> [] \<and> hd (strip l) \<notin> {CHR ''#'', CHR ''-'', CHR ''*''} \<longrightarrow>
      (\<exists>A cs c ds B.
          convert_markdown_paragraph_to_html (pre @ [l] @ post) =
            Inr (A @ [''<p>\<newline>''] @ cs @ [c] @ ds @ [''</p>\<newline>''] @ B)
          \<and> (c = ''    '' @ strip l @ ''<br/>\<newline>''
               \<or> c = replace (''    '' @ strip l @ ''<br/>\<newline>'') ''<br/>\<newline>'' ''\<newline>'')
          \<and> ''<p>\<newline>'' \<notin> set (cs @ ds) \<and> ''</p>\<newline>'' \<notin> set (cs @ ds)))
   \<and> (\<exists>out out'. pipeline lines = Inr out \<and> pipeline out = Inr out')
   \<and> (pipeline lines = Inr out \<and> t \<in> set out
        \<and> strip t \<noteq> [] \<and> hd (strip t) \<notin> {CHR ''#'', CHR ''-'', CHR ''*''} \<longrightarrow>
      (\<exists>out'. pipeline out = Inr out'
         \<and> (''    '' @ strip t @ ''<br/>\<newline>'' \<in> set out'
              \<or> replace (''    '' @ strip t @ ''<br/>\<newline>'') ''<br/>\<newline>'' ''\<newline>'' \<in> set out')))
   \<and> paragraph_line ''<ul>\<newline>'' \<and> paragraph_line ''<h3>Title</h3>\<newline>''
   \<and> pipeline [''# T\<newline>'', ''- a\<newline>''] =
       Inr [''<p>\<newline>'', ''    <h1>T</h1><br/>\<newline>'', ''    <ul><br/>\<newline>'',
            ''    <li>a</li><br/>\<newline>'', ''    </ul>\<newline>'', ''</p>\<newline>'']
   \<and> pipeline [''<p>\<newline>'', ''    <h1>T</h1><br/>\<newline>'', ''    <ul><br/>\<newline>'',
                ''    <li>a</li><br/>\<newline>'', ''    </ul>\<newline>'', ''</p>\<newline>''] =
       Inr [''<p>\<newline>'', ''    <p><br/>\<newline>'', ''    <h1>T</h1><br/><br/>\<newline>'',
            ''    <ul><br/><br/>\<newline>'', ''    <li>a</li><br/><br/>\<newline>'',
            ''    </ul><br/>\<newline>'', ''    </p>\<newline>'', ''</p>\<newline>'']"
proof (intro conjI impI)
  assume "strip l \<noteq> [] \<and> hd (strip l) \<notin> {CHR ''#'', CHR ''-'', CHR ''*''}"
  then have "paragraph_line l"
    by (simp add: paragraph_line_iff)
  from par_emit_wraps_block [OF this, of pre post]
  show "\<exists>A cs c ds B.
          convert_markdown_paragraph_to_html (pre @ [l] @ post) =
            Inr (A @ [''<p>\<newline>''] @ cs @ [c] @ ds @ [''</p>\<newline>''] @ B)
          \<and> (c = ''    '' @ strip l @ ''<br/>\<newline>''
               \<or> c = replace (''    '' @ strip l @ ''<br/>\<newline>'') ''<br/>\<newline>'' ''\<newline>'')
          \<and> ''<p>\<newline>'' \<notin> set (cs @ ds) \<and> ''</p>\<newline>'' \<notin> set (cs @ ds)"
    unfolding paragraph_emit content_line_def close_break_def by simp
next
  show "\<exists>out out'. pipeline lines = Inr out \<and> pipeline out = Inr out'"
    by (simp add: pipeline_emit)
next
  assume "pipeline lines = Inr out \<and> t \<in> set out
        \<and> strip t \<noteq> [] \<and> hd (strip t) \<notin> {CHR ''#'', CHR ''-'', CHR ''*''}"
  then have "t \<in> set out" "paragraph_line t"
    by (simp_all add: paragraph_line_iff)
  from pipeline_keeps_plain [OF this]
  show "\<exists>out'. pipeline out = Inr out'
         \<and> (''    '' @ strip t @ ''<br/>\<newline>'' \<in> set out'
              \<or> replace (''    '' @ strip t @ ''<br/>\<newline>'') ''<br/>\<newline>'' ''\<newline>'' \<in> set out')"
    unfolding content_line_def close_break_def by simp
next
  show "paragraph_line ''<ul>\<newline>''" "paragraph_line ''<h3>Title</h3>\<newline>''"
    by (rule tag_lines_plain)+
next
  show "pipeline [''# T\<newline>'', ''- a\<newline>''] =
       Inr [''<p>\<newline>'', ''    <h1>T</h1><br/>\<newline>'', ''    <ul><br/>\<newline>'',
            ''    <li>a</li><br/>\<newline>'', ''    </ul>\<newline>'', ''</p>\<newline>'']"
    by (rule pipeline_example_1)
next
  show "pipeline [''<p>\<newline>'', ''    <h1>T</h1><br/>\<newline>'', ''    <ul><br/>\<newline>'',
                ''    <li>a</li><br/>\<newline>'', ''    </ul>\<newline>'', ''</p>\<newline>''] =
       Inr [''<p>\<newline>'', ''    <p><br/>\<newline>'', ''    <h1>T</h1><br/><br/>\<newline>'',
            ''    <ul><br/><br/>\<newline>'', ''    <li>a</li><br/><br/>\<newline>'',
            ''    </ul><br/>\<newline>'', ''    </p>\<newline>'', ''</p>\<newline>'']"
    by (rule pipeline_example_2)
qed

theorem tag_lines_wrapped_in_paragraphs_witness:
  "(\<exists>A cs c ds B.
      convert_markdown_paragraph_to_html ([''x\<newline>''] @ [''<ul>\<newline>''] @ [''\<newline>'']) =
        Inr (A @ [''<p>\<newline>''] @ cs @ [c] @ ds @ [''</p>\<newline>''] @ B)
      \<and> (c = ''    <ul><br/>\<newline>'' \<or> c = replace ''    <ul><br/>\<newline>'' ''<br/>\<newline>'' ''\<newline>'')
      \<and> ''<p>\<newline>'' \<notin> set (cs @ ds) \<and> ''</p>\<newline>'' \<notin> set (cs @ ds))
   \<and> (\<exists>out'. pipeline [''<p>\<newline>'', ''    <h1>T</h1><br/>\<newline>'', ''    <ul><br/>\<newline>'',
                ''    <li>a</li><br/>\<newline>'', ''    </ul>\<newline>'', ''</p>\<newline>''] = Inr out'
         \<and> (''    <p><br/>\<newline>'' \<in> set out'
              \<or> replace ''    <p><br/>\<newline>'' ''<br/>\<newline>'' ''\<newline>'' \<in> set out'))"
  using tag_lines_wrapped_in_paragraphs
    [of "''<ul>\<newline>''" "[''x\<newline>'']" "[''\<newline>'']" "[''# T\<newline>'', ''- a\<newline>'']"
       "[''<p>\<newline>'', ''    <h1>T</h1><br/>\<newline>'', ''    <ul><br/>\<newline>'',
         ''    <li>a</li><br/>\<newline>'', ''    </ul>\<newline>'', ''</p>\<newline>'']" "''<p>\<newline>''"]
  by (simp add: strip_tags)

section \<open>Properties of main\<close>






text \<open>
  C9. With two arguments and no file at the source path the program prints
  \<open>Missing\<close> and the path on the error stream and ends with exit status 1, the file
  system as it was. When the source is a regular file that can be read and the
  destination can be written, the program ends with exit status 0, the destination
  holding the converted lines.
\<close>

theorem main_missing_file_and_success:
  "(length argv = 3 \<and> fs w (argv ! 1) = None \<longrightarrow>
      main argv w = (Exit 1, w\<lparr>stderr := stderr w @ ''Missing '' @ argv ! 1 @ ''\<newline>''\<rparr>)
      \<and> fs (snd (main argv w)) = fs w)
   \<and> (length argv = 3 \<and> fs w (argv ! 1) = Some (Regular text) \<and> readable w (argv ! 1)
        \<and> writable w (argv ! 2) \<and> fs w (argv ! 2) \<noteq> Some Directory \<longrightarrow>
      (\<exists>converted_lines. pipeline (readlines text) = Inr converted_lines
         \<and> main argv w =
             (Exit 0, w\<lparr>fs := (fs w)(argv ! 2 \<mapsto> Regular (concat converted_lines))\<rparr>)))"
  by (simp add: main_def print_stderr_def read_file_def write_file_def pipeline_emit)

theorem main_missing_file_and_success_witness:
  "main [''./markdown2html.py'', ''a.md'', ''b.html'']
      \<lparr>fs = Map.empty, readable = (\<lambda>p. True), writable = (\<lambda>p. True), stderr = []\<rparr> =
     (Exit 1, \<lparr>fs = Map.empty, readable = (\<lambda>p. True), writable = (\<lambda>p. True),
        stderr = ''Missing a.md\<newline>''\<rparr>)
   \<and> fst (main [''./markdown2html.py'', ''a.md'', ''b.html'']
        \<lparr>fs = [''a.md'' \<mapsto> Regular ''x\<newline>''], readable = (\<lambda>p. True), writable = (\<lambda>p. True),
         stderr = []\<rparr>) = Exit 0"
proof -
  have 1: "main [''./markdown2html.py'', ''a.md'', ''b.html'']
      \<lparr>fs = Map.empty, readable = (\<lambda>p. True), writable = (\<lambda>p. True), stderr = []\<rparr> =
     (Exit 1, \<lparr>fs = Map.empty, readable = (\<lambda>p. True), writable = (\<lambda>p. True),
        stderr = ''Missing a.md\<newline>''\<rparr>)"
    using main_missing_file_and_success [of "[''./markdown2html.py'', ''a.md'', ''b.html'']"
      "\<lparr>fs = Map.empty, readable = (\<lambda>p. True), writable = (\<lambda>p. True), stderr = []\<rparr>"]
    by simp
  have 2: "fst (main [''./markdown2html.py'', ''a.md'', ''b.html'']
        \<lparr>fs = [''a.md'' \<mapsto> Regular ''x\<newline>''], readable = (\<lambda>p. True), writable = (\<lambda>p. True),
         stderr = []\<rparr>) = Exit 0"
    using main_missing_file_and_success [of "[''./markdown2html.py'', ''a.md'', ''b.html'']"
      "\<lparr>fs = [''a.md'' \<mapsto> Regular ''x\<newline>''], readable = (\<lambda>p. True), writable = (\<lambda>p. True),
         stderr = []\<rparr>" "''x\<newline>''"]
    by auto
  from 1 2 show ?thesis by simp
qed

section \<open>Lines read from a file hold no newline inside\<close>

lemma split_lines_one_line:
  "CHR 0x0A \<notin> set cur \<Longrightarrow> \<forall>l \<in> set (split_lines cur s). one_line l"
proof (induction s arbitrary: cur)
  case Nil
  then show ?case by (auto simp: one_line_def dest: in_set_butlastD)
next
  case (Cons c s)
  show ?case
  proof (cases "c = CHR 0x0A")
    case True
    have "\<forall>l \<in> set (split_lines [] s). one_line l"
      by (rule Cons.IH) simp
    with True Cons.prems show ?thesis by (simp add: one_line_def)
  next
    case False
    with Cons.prems have "CHR 0x0A \<notin> set (cur @ [c])" by simp
    from Cons.IH [OF this] False show ?thesis by simp
  qed
qed

lemma readlines_one_line: "\<forall>l \<in> set (readlines text). one_line l"
  unfolding readlines_def by (rule split_lines_one_line) simp

lemma set_strip: "set (strip l) \<subseteq> set l"
  unfolding strip_def by (auto dest!: set_dropWhileD)

lemma strip_snoc_space: "isspace c \<Longrightarrow> set (strip (t @ [c])) \<subseteq> set t"
proof -
  assume c: "isspace c"
  have "dropWhile isspace (t @ [c]) = [] \<or> dropWhile isspace (t @ [c]) = dropWhile isspace t @ [c]"
    using c by (simp add: dropWhile_append)
  then show ?thesis
  proof
    assume "dropWhile isspace (t @ [c]) = []"
    then show ?thesis by (simp add: strip_def)
  next
    assume "dropWhile isspace (t @ [c]) = dropWhile isspace t @ [c]"
    then have "strip (t @ [c]) = rev (dropWhile isspace (rev (dropWhile isspace t)))"
      using c by (simp add: strip_def)
    then show ?thesis
      by (auto dest!: set_dropWhileD)
  qed
qed

lemma strip_no_newline: "one_line l \<Longrightarrow> CHR 0x0A \<notin> set (strip l)"
proof (cases l rule: rev_cases)
  case Nil
  then show ?thesis by (simp add: strip_def)
next
  case (snoc t c)
  assume "one_line l"
  then have t: "CHR 0x0A \<notin> set t" by (simp add: one_line_def snoc)
  show ?thesis
  proof (cases "c = CHR 0x0A")
    case True
    then have "isspace c" by (simp add: isspace_def)
    from strip_snoc_space [OF this, of t] t show ?thesis
      unfolding snoc by blast
  next
    case False
    with t have "CHR 0x0A \<notin> set l" by (simp add: snoc)
    with set_strip [of l] show ?thesis by blast
  qed
qed

lemma one_line_drop: "one_line l \<Longrightarrow> one_line (drop k l)"
  by (auto simp: one_line_def butlast_drop dest: in_set_dropD)

lemma str_nat_digit: "i < 10 \<Longrightarrow> CHR 0x0A \<notin> set (str_nat i)"
proof -
  assume i: "i < 10"
  then have "str_nat i = [''0123456789'' ! i]"
    by (subst str_nat.simps) simp
  moreover have "''0123456789'' ! i \<in> set ''0123456789''"
    using i by (intro nth_mem) simp
  moreover have "CHR 0x0A \<notin> set ''0123456789''"
    by simp
  ultimately show ?thesis by auto
qed

lemma heading_try_one_line:
  assumes "one_line line"
  shows "one_line (heading_try range_6_0 line)"
proof (cases "heading_prefix line")
  case False
  with assms show ?thesis by (simp add: heading_try_other)
next
  case True
  then obtain i where i: "i \<in> set range_6_0" "startswith line (replicate i CHR ''#'' @ '' '')"
    by (auto simp: heading_prefix_def list_ex_iff)
  then have "i < 10" by (simp add: set_range_6_0)
  then have d: "CHR 0x0A \<notin> set (str_nat i)" by (rule str_nat_digit)
  have s: "CHR 0x0A \<notin> set (strip (drop (i + 1) line))"
    using assms by (intro strip_no_newline one_line_drop)
  show ?thesis
    using d s by (simp add: heading_try_hit [OF i] one_line_def butlast_append)
qed

lemma grouper_one_line:
  assumes "\<forall>l \<in> set ls. one_line l" "one_line opn" "one_line cls"
  shows "\<forall>l \<in> set (list_grouper_spec m opn cls b ls). one_line l"
proof
  fix x
  assume "x \<in> set (list_grouper_spec m opn cls b ls)"
  with grouper_adds_tags [of m opn cls b ls]
  consider "x = opn" | "x = cls" | "x \<in> set ls"
    | l where "l \<in> set ls" "x = ''   <li>'' @ strip (drop (length m) l) @ ''</li>\<newline>''"
    by auto
  then show "one_line x"
  proof cases
    case 4
    then have "CHR 0x0A \<notin> set (strip (drop (length m) l))"
      using assms(1) by (intro strip_no_newline one_line_drop) simp
    with 4 show ?thesis by (simp add: one_line_def butlast_append)
  qed (use assms in auto)
qed

lemma stages_one_line:
  assumes "\<forall>l \<in> set lines. one_line l"
  shows "\<forall>l \<in> set (convert_markdown_ol_list_to_html (convert_markdown_ul_list_to_html
            (convert_markdown_heading_to_html lines))). one_line l"
proof -
  have "\<forall>l \<in> set (convert_markdown_heading_to_html lines). one_line l"
    using assms by (auto simp: heading_map heading_try_one_line)
  then have "\<forall>l \<in> set (convert_markdown_ul_list_to_html
      (convert_markdown_heading_to_html lines)). one_line l"
    unfolding convert_markdown_ul_list_to_html_def ul_loop_spec append_Nil
    by (rule grouper_one_line) (simp_all add: one_line_def)
  then show ?thesis
    unfolding convert_markdown_ol_list_to_html_def ol_loop_spec append_Nil
    by (rule grouper_one_line) (simp_all add: one_line_def)
qed

text \<open>
  C10. Closing a paragraph rewrites the last emitted line only, by replacing
  \<open>"<br/>\n"\<close> with \<open>"\n"\<close>, and leaves every earlier line of the buffer as it is. A content
  line holds no newline before its end when the stripped text \<open>s\<close> of its input line holds
  none; then the closed paragraph's last content line is \<open>"    " + s + "\n"\<close>, also when
  \<open>s\<close> itself ends in \<open><br/>\<close>, at the end of input and before a line that fails the test
  of line 116. Every line that reaches the paragraph grouper in \<open>main\<close> has such a
  stripped text.
\<close>

theorem paragraph_close_rewrites_last_only:
  "strip_last_break (html @ [c]) = Inr (html @ [replace c ''<br/>\<newline>'' ''\<newline>''])
   \<and> (paragraph_line l \<and> CHR 0x0A \<notin> set (strip l) \<longrightarrow>
        par_loop True (html @ [''    '' @ strip l @ ''<br/>\<newline>'']) [] =
          Inr (html @ [''    '' @ strip l @ ''\<newline>'', ''</p>\<newline>''])
        \<and> (\<not> paragraph_line l' \<longrightarrow>
             par_loop True (html @ [''    '' @ strip l @ ''<br/>\<newline>'']) (l' # rest) =
               par_loop False (html @ [''    '' @ strip l @ ''\<newline>'', ''</p>\<newline>'', l']) rest)
        \<and> (\<exists>A. convert_markdown_paragraph_to_html (pre @ [l]) =
               Inr (A @ [''    '' @ strip l @ ''\<newline>'', ''</p>\<newline>'']))
        \<and> (\<not> paragraph_line l' \<longrightarrow>
             (\<exists>A B. convert_markdown_paragraph_to_html (pre @ [l, l'] @ rest) =
                Inr (A @ [''    '' @ strip l @ ''\<newline>'', ''</p>\<newline>'', l'] @ B))))
   \<and> convert_markdown_paragraph_to_html [''a\<newline>'', ''x<br/>\<newline>'', ''\<newline>''] =
       Inr [''<p>\<newline>'', ''    a<br/>\<newline>'', ''    x<br/>\<newline>'', ''</p>\<newline>'', ''\<newline>'']
   \<and> (\<forall>l \<in> set (convert_markdown_ol_list_to_html (convert_markdown_ul_list_to_html
            (convert_markdown_heading_to_html (readlines text)))). CHR 0x0A \<notin> set (strip l))"
proof (intro conjI impI)
  show "strip_last_break (html @ [c]) = Inr (html @ [replace c ''<br/>\<newline>'' ''\<newline>''])"
    by (simp add: strip_last_break_snoc close_break_def)
next
  assume h: "paragraph_line l \<and> CHR 0x0A \<notin> set (strip l)"
  then have cl: "close_break (''    '' @ strip l @ ''<br/>\<newline>'') = ''    '' @ strip l @ ''\<newline>''"
    using replace_break_end [of "''    '' @ strip l"] by (simp add: close_break_def)
  show "par_loop True (html @ [''    '' @ strip l @ ''<br/>\<newline>'']) [] =
          Inr (html @ [''    '' @ strip l @ ''\<newline>'', ''</p>\<newline>''])"
    using cl by (simp add: strip_last_break_snoc)
  obtain A where A: "par_emit None (pre @ l # []) = A @ par_emit (Some (content_line l)) []"
    using par_emit_upto [of l None pre "[]"] h by blast
  have "convert_markdown_paragraph_to_html (pre @ [l]) =
      Inr (A @ [''    '' @ strip l @ ''\<newline>'', ''</p>\<newline>''])"
    using A cl by (simp add: paragraph_emit content_line_def)
  then show "\<exists>A. convert_markdown_paragraph_to_html (pre @ [l]) =
               Inr (A @ [''    '' @ strip l @ ''\<newline>'', ''</p>\<newline>''])"
    by blast
  {
    assume n: "\<not> paragraph_line l'"
    show "par_loop True (html @ [''    '' @ strip l @ ''<br/>\<newline>'']) (l' # rest) =
               par_loop False (html @ [''    '' @ strip l @ ''\<newline>'', ''</p>\<newline>'', l']) rest"
      using n cl by (simp add: strip_last_break_snoc)
    obtain A where A: "par_emit None (pre @ l # l' # rest) =
        A @ par_emit (Some (content_line l)) (l' # rest)"
      using par_emit_upto [of l None pre "l' # rest"] h by blast
    have "convert_markdown_paragraph_to_html (pre @ [l, l'] @ rest) =
        Inr (A @ [''    '' @ strip l @ ''\<newline>'', ''</p>\<newline>'', l'] @ par_emit None rest)"
      using A cl n by (simp add: paragraph_emit content_line_def)
    then show "\<exists>A B. convert_markdown_paragraph_to_html (pre @ [l, l'] @ rest) =
                Inr (A @ [''    '' @ strip l @ ''\<newline>'', ''</p>\<newline>'', l'] @ B)"
      by blast
  }
next
  show "convert_markdown_paragraph_to_html [''a\<newline>'', ''x<br/>\<newline>'', ''\<newline>''] =
       Inr [''<p>\<newline>'', ''    a<br/>\<newline>'', ''    x<br/>\<newline>'', ''</p>\<newline>'', ''\<newline>'']"
    by (simp add: paragraph_emit paragraph_line_iff strip_a_nl strip_x_br strip_blank close_x_br
        content_line_def)
next
  show "\<forall>l \<in> set (convert_markdown_ol_list_to_html (convert_markdown_ul_list_to_html
            (convert_markdown_heading_to_html (readlines text)))). CHR 0x0A \<notin> set (strip l)"
    using stages_one_line [OF readlines_one_line, of "text"] strip_no_newline by blast
qed

theorem paragraph_close_rewrites_last_only_witness:
  "par_loop True ([''<p>\<newline>'', ''    a<br/>\<newline>''] @ [''    '' @ strip ''x<br/>\<newline>'' @ ''<br/>\<newline>'']) [] =
     Inr [''<p>\<newline>'', ''    a<br/>\<newline>'', ''    x<br/>\<newline>'', ''</p>\<newline>'']
   \<and> par_loop True ([''<p>\<newline>'', ''    a<br/>\<newline>''] @ [''    '' @ strip ''x<br/>\<newline>'' @ ''<br/>\<newline>'']) [''\<newline>''] =
     Inr [''<p>\<newline>'', ''    a<br/>\<newline>'', ''    x<br/>\<newline>'', ''</p>\<newline>'', ''\<newline>'']"
proof -
  have cl: "replace ''    x<br/><br/>\<newline>'' ''<br/>\<newline>'' ''\<newline>'' = ''    x<br/>\<newline>''"
    using close_x_br by (simp add: close_break_def)
  show ?thesis
    using paragraph_close_rewrites_last_only
      [of "[''<p>\<newline>'', ''    a<br/>\<newline>'']" "[]" "''x<br/>\<newline>''" "''\<newline>''" "[]" "[]" "[]"]
    by (simp add: paragraph_line_iff strip_x_br strip_blank cl)
qed

end
